theory Spec2Isabelle
  imports Complex_Main "HOL-Library.Multiset" "HOL-Library.Log_Nat"
begin

section \<open>JavaScript values\<close>

text \<open>
  The feedback collection stores whatever \<^verbatim>\<open>meeting.id\<close> and \<^verbatim>\<open>meeting.title\<close>
  hold, so these two fields are JavaScript values. A number is the rational it denotes.
\<close>

datatype jsval =
    Undefined
  | Null
  | JBool bool
  | JNum rat
  | JNaN
  | JStr string
  | JObj "(string \<times> jsval) list"

datatype js_error = TypeError | Error

text \<open>Truthiness, as tested by \<^verbatim>\<open>&&\<close>, \<^verbatim>\<open>||\<close> and \<^verbatim>\<open>if\<close>.\<close>

fun truthy :: "jsval \<Rightarrow> bool" where
  "truthy Undefined = False"
| "truthy Null = False"
| "truthy (JBool b) = b"
| "truthy (JNum n) = (n \<noteq> 0)"
| "truthy JNaN = False"
| "truthy (JStr s) = (s \<noteq> [])"
| "truthy (JObj ps) = True"

text \<open>
  Property read \<^verbatim>\<open>v.k\<close> for a key that no prototype defines: a TypeError on
  \<^verbatim>\<open>null\<close> and \<^verbatim>\<open>undefined\<close>, \<^verbatim>\<open>undefined\<close> on a primitive and on an
  object without the key.
\<close>

fun get_prop :: "jsval \<Rightarrow> string \<Rightarrow> js_error + jsval" where
  "get_prop Undefined k = Inl TypeError"
| "get_prop Null k = Inl TypeError"
| "get_prop (JObj ps) k = (case map_of ps k of None \<Rightarrow> Inr Undefined | Some v \<Rightarrow> Inr v)"
| "get_prop v k = Inr Undefined"

text \<open>\<^verbatim>\<open>a || b\<close>\<close>

definition js_or :: "jsval \<Rightarrow> jsval \<Rightarrow> jsval" where
  "js_or a b = (if truthy a then a else b)"

subsection \<open>Double arithmetic\<close>

text \<open>
  \<^verbatim>\<open>+=\<close> on numbers rounds the exact sum to the nearest double, ties to the even
  significand. \<open>pow2 e\<close> is the power of two with exponent \<open>e\<close>, \<open>exponent x\<close> the
  exponent of the binade of a positive \<open>x\<close> (the largest \<open>e\<close> with \<open>pow2 e \<le> x\<close>), and
  \<open>nearest_double x\<close> the multiple of the unit in the last place of that binade (53
  significant bits, and no unit below that of the subnormal numbers) nearest to \<open>x\<close>.
  Overflow to \<^verbatim>\<open>Infinity\<close>, beyond \<open>pow2 1024\<close>, is out of reach of sums of percentages
  and is not modelled.
\<close>

definition pow2 :: "int \<Rightarrow> rat" where
  "pow2 e = (if 0 \<le> e then 2 ^ nat e else 1 / 2 ^ nat (- e))"

definition exponent :: "rat \<Rightarrow> int" where
  "exponent x = (if 1 \<le> x then bitlen \<lfloor>x\<rfloor> - 1 else - bitlen (\<lceil>1 / x\<rceil> - 1))"

definition round_even :: "rat \<Rightarrow> int" where
  "round_even y =
    (let f = \<lfloor>y\<rfloor>; d = y - of_int f
     in if d < 1 / 2 then f else if 1 / 2 < d then f + 1 else if even f then f else f + 1)"

definition nearest_double :: "rat \<Rightarrow> rat" where
  "nearest_double x =
    (if x = 0 then 0
     else
       let u = pow2 (max (exponent \<bar>x\<bar> - 52) (- 1074))
       in of_int (round_even (x / u)) * u)"

definition js_add :: "rat \<Rightarrow> rat \<Rightarrow> rat" where
  "js_add a b = nearest_double (a + b)"

section \<open>Aggregates and suggestions\<close>

text \<open>
  A counter of the \<^verbatim>\<open>lengthRatings\<close> object: a number of answers, or \<^verbatim>\<open>NaN\<close>
  (what \<^verbatim>\<open>++\<close> leaves under a key that held no number).
\<close>

datatype count = Count nat | NaN

record aggregated =
  recurringMeetingId :: string
  meetingTitle :: jsval
  totalResponses :: nat
  decisionsRate :: rat
  actionItemsRate :: rat
  averageParticipation :: rat
  couldBeAsyncRate :: rat
  lengthRatings :: "string \<rightharpoonup> count"

record suggestion =
  area :: string
  suggestion :: string
  priority :: string

text \<open>
  \<^verbatim>\<open>lengthRatings[k] > x\<close>: a missing key reads \<^verbatim>\<open>undefined\<close>, which compares as
  \<^verbatim>\<open>NaN\<close>, and every comparison with \<^verbatim>\<open>NaN\<close> is false.
\<close>

fun rating_gt :: "count option \<Rightarrow> rat \<Rightarrow> bool" where
  "rating_gt (Some (Count c)) x = (of_nat c > x)"
| "rating_gt (Some NaN) x = False"
| "rating_gt None x = False"

section \<open>The feedback collection\<close>

text \<open>
  A submitted response holds the answers of one survey, typed per question as the survey
  templates declare them: booleans, a percentage, one option text. An answer that was not
  given is \<open>None\<close>. The dates of the source (\<^verbatim>\<open>timestamp\<close>, \<^verbatim>\<open>scheduledTime\<close>) are
  read by no function and are left out.
\<close>

record response_data =
  decision_made :: "bool option"
  action_items :: "bool option"
  participation :: "rat option"
  could_be_async :: "bool option"
  meeting_length :: "string option"

record response =
  data :: response_data

record feedback =
  id' :: string
  meetingId :: jsval
  meetingTitle :: jsval
  template :: string
  status :: string
  responses :: "response list"

text \<open>
  The object state of \<^verbatim>\<open>FeedbackCollection\<close>: the in-memory database and what a
  lookup in \<^verbatim>\<open>surveyTemplates\<close> returns for a key (a template is kept as its display
  name). Every method takes the state and returns it, updated where the method writes.
\<close>

record feedback_collection =
  feedbackDatabase :: "feedback list"
  surveyTemplates :: "string \<rightharpoonup> string"

text \<open>\<^verbatim>\<open>String.prototype.toLowerCase\<close> on ASCII.\<close>

definition lower_char :: "char \<Rightarrow> char" where
  "lower_char c =
    (if (65::nat) \<le> of_char c \<and> of_char c \<le> (90::nat) then char_of (of_char c + (32::nat)) else c)"

definition toLowerCase :: "string \<Rightarrow> string" where
  "toLowerCase s = map lower_char s"

text \<open>
  \<^verbatim>\<open>scheduleFeedback(meeting, templateName)\<close>. The random token of the record is the
  argument \<open>feedbackId\<close>. Whatever is thrown inside the \<^verbatim>\<open>try\<close> is caught and the
  method returns \<^verbatim>\<open>null\<close>.
\<close>

definition scheduleFeedback_try ::
  "feedback_collection \<Rightarrow> string \<Rightarrow> jsval \<Rightarrow> string \<Rightarrow> js_error + feedback \<times> feedback_collection" where
  "scheduleFeedback_try this feedbackId meeting templateName =
    (case surveyTemplates this (toLowerCase templateName) of
       None \<Rightarrow> Inl Error
     | Some t \<Rightarrow>
        (case get_prop meeting ''id'' of
           Inl e \<Rightarrow> Inl e
         | Inr mid \<Rightarrow>
            (case get_prop meeting ''title'' of
               Inl e \<Rightarrow> Inl e
             | Inr mtitle \<Rightarrow>
                let scheduledFeedback =
                      \<lparr>id' = feedbackId, meetingId = js_or mid Null, meetingTitle = mtitle,
                       template = templateName, status = ''scheduled'', responses = []\<rparr>
                in Inr (scheduledFeedback,
                        this\<lparr>feedbackDatabase := feedbackDatabase this @ [scheduledFeedback]\<rparr>))))"

definition scheduleFeedback ::
  "feedback_collection \<Rightarrow> string \<Rightarrow> jsval \<Rightarrow> string \<Rightarrow> feedback option \<times> feedback_collection" where
  "scheduleFeedback this feedbackId meeting templateName =
    (case scheduleFeedback_try this feedbackId meeting templateName of
       Inl e \<Rightarrow> (None, this)
     | Inr (fb, this') \<Rightarrow> (Some fb, this'))"

text \<open>\<^verbatim>\<open>Array.prototype.findIndex\<close>, with \<open>None\<close> for \<^verbatim>\<open>-1\<close>.\<close>

fun findIndex :: "('a \<Rightarrow> bool) \<Rightarrow> 'a list \<Rightarrow> nat option" where
  "findIndex p [] = None"
| "findIndex p (x # xs) =
    (if p x then Some 0 else (case findIndex p xs of None \<Rightarrow> None | Some i \<Rightarrow> Some (Suc i)))"

text \<open>\<^verbatim>\<open>submitFeedback(feedbackId, responses)\<close>\<close>

definition submitFeedback ::
  "feedback_collection \<Rightarrow> string \<Rightarrow> response_data \<Rightarrow> bool \<times> feedback_collection" where
  "submitFeedback this feedbackId rs =
    (case findIndex (\<lambda>fb. id' fb = feedbackId) (feedbackDatabase this) of
       None \<Rightarrow> (False, this)
     | Some feedbackIndex \<Rightarrow>
        let fb = feedbackDatabase this ! feedbackIndex;
            fb = fb\<lparr>responses := responses fb @ [\<lparr>data = rs\<rparr>]\<rparr>;
            fb = fb\<lparr>status := ''completed''\<rparr>
        in (True, this\<lparr>feedbackDatabase := (feedbackDatabase this)[feedbackIndex := fb]\<rparr>))"

subsection \<open>Aggregation\<close>

text \<open>
  The callback of \<^verbatim>\<open>filter\<close>. \<^verbatim>\<open>&&\<close> evaluates its right operand only when the left
  one is truthy; the query is a string (its declared type), so \<^verbatim>\<open>===\<close> holds exactly
  for the same string.
\<close>

definition matches :: "string \<Rightarrow> feedback \<Rightarrow> js_error + bool" where
  "matches recurringId fb =
    (if \<not> truthy (meetingId fb) then Inr False
     else
       (case get_prop (meetingId fb) ''recurringMeetingId'' of
          Inl e \<Rightarrow> Inl e
        | Inr v \<Rightarrow>
            Inr (v = JStr recurringId \<and> status fb = ''completed'' \<and> length (responses fb) > 0)))"

fun filter_try :: "('a \<Rightarrow> js_error + bool) \<Rightarrow> 'a list \<Rightarrow> js_error + 'a list" where
  "filter_try p [] = Inr []"
| "filter_try p (x # xs) =
    (case p x of
       Inl e \<Rightarrow> Inl e
     | Inr b \<Rightarrow>
        (case filter_try p xs of
           Inl e \<Rightarrow> Inl e
         | Inr ys \<Rightarrow> Inr (if b then x # ys else ys)))"

text \<open>
  \<^verbatim>\<open>lengthRatings[k]++\<close>: a counter goes up by one; a key that holds no number gets
  \<^verbatim>\<open>NaN\<close>, except \<^verbatim>\<open>__proto__\<close>, whose setter ignores a number.
\<close>

definition increment :: "(string \<rightharpoonup> count) \<Rightarrow> string \<Rightarrow> (string \<rightharpoonup> count)" where
  "increment ratings k =
    (if k = ''__proto__'' then ratings
     else ratings(k \<mapsto> (case ratings k of Some (Count n) \<Rightarrow> Count (n + 1) | Some NaN \<Rightarrow> NaN | None \<Rightarrow> NaN)))"

text \<open>
  The variables the two nested \<^verbatim>\<open>forEach\<close> loops write. The three counters are
  integers; \<open>participationSum\<close> is a double, and each \<^verbatim>\<open>+=\<close> on it rounds.
\<close>

record tally =
  aggregated :: aggregated
  decisionCount :: nat
  actionItemsCount :: nat
  participationSum :: rat
  asyncCount :: nat

definition is_true :: "bool option \<Rightarrow> bool" where
  "is_true b = (b = Some True)"

definition process_response :: "tally \<Rightarrow> response \<Rightarrow> tally" where
  "process_response t response =
    (let t = t\<lparr>aggregated := (aggregated t)\<lparr>totalResponses := totalResponses (aggregated t) + 1\<rparr>\<rparr>;
         t = (if is_true (decision_made (data response)) then t\<lparr>decisionCount := decisionCount t + 1\<rparr> else t);
         t = (if is_true (action_items (data response)) then t\<lparr>actionItemsCount := actionItemsCount t + 1\<rparr> else t);
         t = (case participation (data response) of
                None \<Rightarrow> t
              | Some p \<Rightarrow> if p \<noteq> 0 then t\<lparr>participationSum := js_add (participationSum t) p\<rparr> else t);
         t = (if is_true (could_be_async (data response)) then t\<lparr>asyncCount := asyncCount t + 1\<rparr> else t)
     in (case meeting_length (data response) of
           None \<Rightarrow> t
         | Some k \<Rightarrow>
            if k \<noteq> [] then
              t\<lparr>aggregated := (aggregated t)\<lparr>lengthRatings := increment (lengthRatings (aggregated t)) k\<rparr>\<rparr>
            else t))"

definition process_feedback :: "tally \<Rightarrow> feedback \<Rightarrow> tally" where
  "process_feedback t fb = foldl process_response t (responses fb)"

text \<open>
  The rates. Each is a single quotient, kept as the exact rational: the double that the
  program holds is the one nearest to it.
\<close>

definition calculate_rates :: "tally \<Rightarrow> aggregated" where
  "calculate_rates t =
    (let a = aggregated t in
     if totalResponses a > 0 then
       a\<lparr>decisionsRate := of_nat (decisionCount t) / of_nat (totalResponses a),
         actionItemsRate := of_nat (actionItemsCount t) / of_nat (totalResponses a),
         averageParticipation := participationSum t / of_nat (totalResponses a),
         couldBeAsyncRate := of_nat (asyncCount t) / of_nat (totalResponses a)\<rparr>
     else a)"

definition getAggregatedFeedback_try :: "feedback_collection \<Rightarrow> string \<Rightarrow> js_error + aggregated option" where
  "getAggregatedFeedback_try this recurringId =
    (case filter_try (matches recurringId) (feedbackDatabase this) of
       Inl e \<Rightarrow> Inl e
     | Inr feedbackItems \<Rightarrow>
        (case feedbackItems of
           [] \<Rightarrow> Inr None
         | first # rest \<Rightarrow>
            let start =
                  \<lparr>aggregated =
                     \<lparr>recurringMeetingId = recurringId, aggregated.meetingTitle = meetingTitle first,
                      totalResponses = 0, decisionsRate = 0, actionItemsRate = 0,
                      averageParticipation = 0, couldBeAsyncRate = 0,
                      lengthRatings = [''Too short'' \<mapsto> Count 0, ''Just right'' \<mapsto> Count 0,
                                       ''Too long'' \<mapsto> Count 0]\<rparr>,
                   decisionCount = 0, actionItemsCount = 0, participationSum = 0, asyncCount = 0\<rparr>
            in Inr (Some (calculate_rates (foldl process_feedback start feedbackItems)))))"

text \<open>
  The method: the \<^verbatim>\<open>catch\<close> turns whatever was thrown into \<^verbatim>\<open>null\<close>. The method
  has no assignment to the database or to a record of it.
\<close>

definition getAggregatedFeedback :: "feedback_collection \<Rightarrow> string \<Rightarrow> aggregated option \<times> feedback_collection" where
  "getAggregatedFeedback this recurringId =
    (case getAggregatedFeedback_try this recurringId of
       Inl e \<Rightarrow> (None, this)
     | Inr r \<Rightarrow> (r, this))"

subsection \<open>Suggestions\<close>

text \<open>\<^verbatim>\<open>suggestions.push(s)\<close> guarded by its \<^verbatim>\<open>if\<close>.\<close>

definition push_if :: "bool \<Rightarrow> suggestion \<Rightarrow> suggestion list \<Rightarrow> suggestion list" where
  "push_if c s suggestions = (if c then suggestions @ [s] else suggestions)"

definition generateImprovementSuggestions ::
  "feedback_collection \<Rightarrow> aggregated option \<Rightarrow> suggestion list \<times> feedback_collection" where
  "generateImprovementSuggestions this aggregatedFeedback =
    (case aggregatedFeedback of
       None \<Rightarrow> ([], this)
     | Some a \<Rightarrow>
        if totalResponses a = 0 then ([], this)
        else
          let suggestions = [];
              suggestions = push_if (decisionsRate a < 5 / 10)
                \<lparr>area = ''Decision Making'',
                 suggestion = ''Include specific decision points in the meeting agenda and ensure they are addressed'',
                 priority = (if decisionsRate a < 2 / 10 then ''high'' else ''medium'')\<rparr> suggestions;
              suggestions = push_if (actionItemsRate a < 6 / 10)
                \<lparr>area = ''Action Items'',
                 suggestion = ''End each meeting with clear action items assigned to specific individuals'',
                 priority = (if actionItemsRate a < 3 / 10 then ''high'' else ''medium'')\<rparr> suggestions;
              suggestions = push_if (averageParticipation a < 50)
                \<lparr>area = ''Participation'',
                 suggestion = ''Consider reducing the number of participants or use round-robin techniques to ensure everyone contributes'',
                 priority = (if averageParticipation a < 30 then ''high'' else ''medium'')\<rparr> suggestions;
              suggestions = push_if (couldBeAsyncRate a > 6 / 10)
                \<lparr>area = ''Meeting Format'',
                 suggestion = ''Convert this recurring meeting to an asynchronous format using tools like shared documents or structured chat threads'',
                 priority = (if couldBeAsyncRate a > 8 / 10 then ''high'' else ''medium'')\<rparr> suggestions
          in
            if rating_gt (lengthRatings a ''Too long'') (of_nat (totalResponses a) * (5 / 10)) then
              (suggestions @
                [\<lparr>area = ''Meeting Length'',
                  suggestion = ''Reduce the meeting duration and create a more focused agenda'',
                  priority = ''high''\<rparr>], this)
            else if rating_gt (lengthRatings a ''Too short'') (of_nat (totalResponses a) * (5 / 10)) then
              (suggestions @
                [\<lparr>area = ''Meeting Length'',
                  suggestion = ''Consider allocating more time to allow for more thorough discussion'',
                  priority = ''medium''\<rparr>], this)
            else (suggestions, this))"

section \<open>Vocabulary of the properties\<close>

text \<open>
  The rule table of the suggestion engine, as (area, priority) pairs in the order
  R1, R2, R3, R4, R5a/R5b. A rule that does not fire contributes nothing.
\<close>

definition rule :: "bool \<Rightarrow> string \<Rightarrow> bool \<Rightarrow> (string \<times> string) list" where
  "rule fires ar high = (if fires then [(ar, if high then ''high'' else ''medium'')] else [])"

definition majority :: "aggregated \<Rightarrow> string \<Rightarrow> bool" where
  "majority a k =
    (case lengthRatings a k of
       Some (Count c) \<Rightarrow> totalResponses a < 2 * c
     | Some NaN \<Rightarrow> False
     | None \<Rightarrow> False)"

definition rule_table :: "aggregated \<Rightarrow> (string \<times> string) list" where
  "rule_table a =
     rule (decisionsRate a < 1 / 2) ''Decision Making'' (decisionsRate a < 1 / 5)
   @ rule (actionItemsRate a < 3 / 5) ''Action Items'' (actionItemsRate a < 3 / 10)
   @ rule (averageParticipation a < 50) ''Participation'' (averageParticipation a < 30)
   @ rule (couldBeAsyncRate a > 3 / 5) ''Meeting Format'' (couldBeAsyncRate a > 4 / 5)
   @ (if majority a ''Too long'' then [(''Meeting Length'', ''high'')]
      else if majority a ''Too short'' then [(''Meeting Length'', ''medium'')]
      else [])"

text \<open>Scenario C of the specification.\<close>

definition scenario_C :: aggregated where
  "scenario_C =
    \<lparr>recurringMeetingId = ''rec-123'', aggregated.meetingTitle = JStr ''Weekly Team Sync'',
     totalResponses = 10, decisionsRate = 1 / 10, actionItemsRate = 9 / 10,
     averageParticipation = 25, couldBeAsyncRate = 9 / 10,
     lengthRatings = [''Too long'' \<mapsto> Count 6, ''Just right'' \<mapsto> Count 3,
                      ''Too short'' \<mapsto> Count 1]\<rparr>"

text \<open>
  The series a record belongs to: the string under \<^verbatim>\<open>recurringMeetingId\<close> of the
  object stored as its \<^verbatim>\<open>meetingId\<close>, if there is one.
\<close>

definition record_series :: "feedback \<Rightarrow> string option" where
  "record_series fb =
    (case meetingId fb of
       JObj ps \<Rightarrow> (case map_of ps ''recurringMeetingId'' of Some (JStr s) \<Rightarrow> Some s | _ \<Rightarrow> None)
     | _ \<Rightarrow> None)"

definition selected :: "string \<Rightarrow> feedback \<Rightarrow> bool" where
  "selected q fb = (record_series fb = Some q \<and> status fb = ''completed'' \<and> responses fb \<noteq> [])"

definition all_responses :: "feedback list \<Rightarrow> response list" where
  "all_responses items = concat (map responses items)"

definition answers :: "response list \<Rightarrow> string list" where
  "answers rs = concat (map (\<lambda>r. case meeting_length (data r) of None \<Rightarrow> [] | Some k \<Rightarrow> if k \<noteq> [] then [k] else []) rs)"

definition count_true :: "(response_data \<Rightarrow> bool option) \<Rightarrow> response list \<Rightarrow> nat" where
  "count_true q rs = length (filter (\<lambda>r. q (data r) = Some True) rs)"

definition supplied :: "response \<Rightarrow> rat" where
  "supplied r = (case participation (data r) of None \<Rightarrow> 0 | Some p \<Rightarrow> p)"

text \<open>
  The participation values that the loop adds, in the order it meets them, and their sum
  as the chain of double additions leaves it.
\<close>

definition supplied_values :: "response list \<Rightarrow> rat list" where
  "supplied_values rs =
    concat (map (\<lambda>r. case participation (data r) of
                         None \<Rightarrow> []
                       | Some p \<Rightarrow> if p \<noteq> 0 then [p] else []) rs)"

definition double_sum :: "rat list \<Rightarrow> rat" where
  "double_sum vs = foldl js_add 0 vs"

text \<open>A whole number, not negative.\<close>

definition whole :: "rat \<Rightarrow> bool" where
  "whole p = (0 \<le> p \<and> of_int \<lfloor>p\<rfloor> = p)"

definition initial_ratings :: "string \<rightharpoonup> count" where
  "initial_ratings = [''Too short'' \<mapsto> Count 0, ''Just right'' \<mapsto> Count 0, ''Too long'' \<mapsto> Count 0]"

definition rate :: "nat \<Rightarrow> nat \<Rightarrow> rat" where
  "rate c n = of_nat c / of_nat n"

definition summary :: "string \<Rightarrow> jsval \<Rightarrow> response list \<Rightarrow> aggregated" where
  "summary q t rs =
    \<lparr>recurringMeetingId = q, aggregated.meetingTitle = t,
     totalResponses = length rs,
     decisionsRate = rate (count_true decision_made rs) (length rs),
     actionItemsRate = rate (count_true action_items rs) (length rs),
     averageParticipation = double_sum (supplied_values rs) / of_nat (length rs),
     couldBeAsyncRate = rate (count_true could_be_async rs) (length rs),
     lengthRatings = foldl increment initial_ratings (answers rs)\<rparr>"

text \<open>A collection with four records, of which the first and the last are selected for \<open>rec-123\<close>.\<close>

definition answer :: "bool \<Rightarrow> bool \<Rightarrow> rat option \<Rightarrow> bool \<Rightarrow> string option \<Rightarrow> response" where
  "answer d a p c l =
    \<lparr>data = \<lparr>decision_made = Some d, action_items = Some a, participation = p,
              could_be_async = Some c, meeting_length = l\<rparr>\<rparr>"

definition demo :: feedback_collection where
  "demo =
    \<lparr>feedbackDatabase =
       [\<lparr>id' = ''fb-1'', meetingId = JObj [(''recurringMeetingId'', JStr ''rec-123'')],
         meetingTitle = JStr ''Weekly Team Sync'', template = ''standard'', status = ''completed'',
         responses = [answer True False (Some 40) False (Some ''Too long''),
                      answer False False None True (Some ''Just right'')]\<rparr>,
        \<lparr>id' = ''fb-2'', meetingId = JStr ''meeting-2'',
         meetingTitle = JStr ''Product Planning'', template = ''standard'', status = ''completed'',
         responses = [answer True True (Some 90) False (Some ''Too short'')]\<rparr>,
        \<lparr>id' = ''fb-3'', meetingId = JObj [(''recurringMeetingId'', JStr ''rec-123'')],
         meetingTitle = JStr ''Weekly Team Sync'', template = ''standard'', status = ''scheduled'',
         responses = []\<rparr>,
        \<lparr>id' = ''fb-4'', meetingId = JObj [(''recurringMeetingId'', JStr ''rec-123'')],
         meetingTitle = JStr ''Weekly Team Sync'', template = ''brief'', status = ''completed'',
         responses = [answer True True (Some 20) True (Some ''Too long'')]\<rparr>],
     surveyTemplates = [''standard'' \<mapsto> ''Standard Meeting Feedback'',
                        ''brief'' \<mapsto> ''Quick Meeting Feedback'',
                        ''detailed'' \<mapsto> ''Detailed Meeting Feedback'']\<rparr>"

definition demo_selected_only :: feedback_collection where
  "demo_selected_only =
     demo\<lparr>feedbackDatabase := [feedbackDatabase demo ! 0, feedbackDatabase demo ! 3]\<rparr>"

definition no_responses :: aggregated where
  "no_responses = scenario_C\<lparr>totalResponses := 0\<rparr>"

definition responses_permuted :: "feedback \<Rightarrow> feedback \<Rightarrow> bool" where
  "responses_permuted fb fb' =
    (fb' = fb\<lparr>responses := responses fb'\<rparr> \<and> mset (responses fb') = mset (responses fb))"

definition count_rates :: "aggregated \<Rightarrow> nat \<times> rat \<times> rat \<times> rat \<times> (string \<rightharpoonup> count)" where
  "count_rates a =
    (totalResponses a, decisionsRate a, actionItemsRate a, couldBeAsyncRate a, lengthRatings a)"

definition rates :: "aggregated \<Rightarrow> nat \<times> rat \<times> rat \<times> rat \<times> rat \<times> (string \<rightharpoonup> count)" where
  "rates a =
    (totalResponses a, decisionsRate a, actionItemsRate a, couldBeAsyncRate a,
     averageParticipation a, lengthRatings a)"

definition demo_reordered :: feedback_collection where
  "demo_reordered =
    demo\<lparr>feedbackDatabase :=
      [feedbackDatabase demo ! 3, feedbackDatabase demo ! 2, feedbackDatabase demo ! 1,
       (feedbackDatabase demo ! 0)\<lparr>responses := rev (responses (feedbackDatabase demo ! 0))\<rparr>]\<rparr>"

text \<open>
  A value without a \<^verbatim>\<open>recurringMeetingId\<close> property: a primitive, \<^verbatim>\<open>null\<close>,
  \<^verbatim>\<open>undefined\<close>, or an object that lacks the key.
\<close>

definition lacks_series :: "jsval \<Rightarrow> bool" where
  "lacks_series v = (case v of JObj ps \<Rightarrow> map_of ps ''recurringMeetingId'' = None | _ \<Rightarrow> True)"

definition mock_meeting :: jsval where
  "mock_meeting =
    JObj [(''id'', JStr ''meeting-1''), (''title'', JStr ''Weekly Team Sync''),
          (''duration'', JNum 60), (''participants'', JNum 8), (''hasAgenda'', JBool True),
          (''recurringMeetingId'', JStr ''rec-123'')]"

definition full_answer :: response_data where
  "full_answer =
    \<lparr>decision_made = Some True, action_items = Some True, participation = Some 80,
     could_be_async = Some False, meeting_length = Some ''Just right''\<rparr>"

definition scheduled_record :: feedback where
  "scheduled_record =
    \<lparr>id' = ''fb-9'', meetingId = JStr ''meeting-1'', meetingTitle = JStr ''Weekly Team Sync'',
     template = ''Standard'', status = ''scheduled'', responses = []\<rparr>"

definition demo_scheduled :: feedback_collection where
  "demo_scheduled = demo\<lparr>feedbackDatabase := feedbackDatabase demo @ [scheduled_record]\<rparr>"

text \<open>
  Collections with one selected record whose participation answers are not whole numbers:
  28.7, 99.6, 21.7, and 0.1, 0.2, 0.3 in both orders, each the double nearest to the
  decimal.
\<close>

definition fractions :: feedback_collection where
  "fractions =
    demo\<lparr>feedbackDatabase :=
      [\<lparr>id' = ''fb-5'', meetingId = JObj [(''recurringMeetingId'', JStr ''rec-123'')],
        meetingTitle = JStr ''Weekly Team Sync'', template = ''standard'', status = ''completed'',
        responses = [answer True True (Some (nearest_double (287 / 10))) False (Some ''Just right''),
                     answer True True (Some (nearest_double (996 / 10))) False (Some ''Just right''),
                     answer True True (Some (nearest_double (217 / 10))) False (Some ''Just right'')]\<rparr>]\<rparr>"

definition tenths :: feedback_collection where
  "tenths =
    demo\<lparr>feedbackDatabase :=
      [\<lparr>id' = ''fb-6'', meetingId = JObj [(''recurringMeetingId'', JStr ''rec-123'')],
        meetingTitle = JStr ''Weekly Team Sync'', template = ''standard'', status = ''completed'',
        responses = [answer True True (Some (nearest_double (1 / 10))) False (Some ''Just right''),
                     answer True True (Some (nearest_double (2 / 10))) False (Some ''Just right''),
                     answer True True (Some (nearest_double (3 / 10))) False (Some ''Just right'')]\<rparr>]\<rparr>"

definition tenths_reversed :: feedback_collection where
  "tenths_reversed =
    tenths\<lparr>feedbackDatabase :=
      [(feedbackDatabase tenths ! 0)\<lparr>responses := rev (responses (feedbackDatabase tenths ! 0))\<rparr>]\<rparr>"

section \<open>Meeting scoring\<close>

text \<open>
  Modelled from the spec: the data model of the scorer (Meeting, ScoreWeights,
  MeetingEvaluation, CalendarSummary, ValidationError). The module
  \<^verbatim>\<open>meeting-usefulness-ai.js\<close> that the API imports is not among the sources; only its
  callers and the \<^verbatim>\<open>SCORE_WEIGHTS\<close> block of the README are. Durations and head counts
  are integers, weights and scores are numbers, an optional boolean is \<open>None\<close> when unknown.
  A ValidationError names the offending field and, in a batch, the position of the
  offending meeting, counted from 0.
\<close>

record meeting =
  title :: string
  duration :: int
  participantCount :: int
  expectedSpeakerCount :: int
  hasAgenda :: bool
  decisionMade :: "bool option"
  followUpSent :: "bool option"
  couldBeAsync :: bool

record score_weights =
  DECISION_MADE :: rat
  AGENDA_PROVIDED :: rat
  FOLLOW_UP_SENT :: rat
  COULD_BE_ASYNC :: rat
  PARTICIPATION_RATIO :: rat
  LONG_MEETING_PENALTY :: rat
  longMeetingMinutes :: rat
  highBand :: rat
  mediumBand :: rat

datatype band = High | Medium | Low

datatype recommendation = Keep | ConsiderAsync | ConsiderDecline

datatype validation_error = ValidationError string "nat option"

record meeting_evaluation =
  score :: rat
  band :: band
  contributingFactors :: "(string \<times> rat) list"
  recommendation :: recommendation

record calendar_summary =
  evaluations :: "meeting_evaluation list"
  meetingCount :: nat
  totalMinutes :: int
  averageScore :: "rat option"
  lowValueMinutes :: int
  reclaimableMinutes :: int

text \<open>
  Modelled from the spec: step 5 of MeetingScorer, the ratio
  \<^verbatim>\<open>expectedSpeakerCount / participantCount\<close>, 0 if \<^verbatim>\<open>participantCount\<close> is 0.
\<close>

definition participationRatio :: "meeting \<Rightarrow> rat" where
  "participationRatio m =
    (if participantCount m = 0 then 0
     else of_int (expectedSpeakerCount m) / of_int (participantCount m))"

text \<open>
  Modelled from the spec: steps 1 to 6 of MeetingScorer, the signed contribution of each
  factor in the fixed order, recorded even when it is zero.
\<close>

definition contributions :: "meeting \<Rightarrow> score_weights \<Rightarrow> (string \<times> rat) list" where
  "contributions m w =
    [(''DECISION_MADE'', if decisionMade m = Some True then DECISION_MADE w else 0),
     (''AGENDA_PROVIDED'', if hasAgenda m then AGENDA_PROVIDED w else 0),
     (''FOLLOW_UP_SENT'', if followUpSent m = Some True then FOLLOW_UP_SENT w else 0),
     (''COULD_BE_ASYNC'', if couldBeAsync m then COULD_BE_ASYNC w else 0),
     (''PARTICIPATION_RATIO'', PARTICIPATION_RATIO w * participationRatio m),
     (''LONG_MEETING_PENALTY'',
        if of_int (duration m) > longMeetingMinutes w then LONG_MEETING_PENALTY w else 0)]"

text \<open>Modelled from the spec: step 7 of MeetingScorer, the clamp to [0, 100].\<close>

definition clamp :: "rat \<Rightarrow> rat" where
  "clamp x = (if x < 0 then 0 else if x > 100 then 100 else x)"

text \<open>
  Modelled from the spec: step 8 of MeetingScorer, the band of a score; a score equal to a
  cut point belongs to the higher band.
\<close>

definition classify :: "score_weights \<Rightarrow> rat \<Rightarrow> band" where
  "classify w s = (if s \<ge> highBand w then High else if s \<ge> mediumBand w then Medium else Low)"

text \<open>Modelled from the spec: step 9 of MeetingScorer, the recommendation.\<close>

definition recommend :: "band \<Rightarrow> bool \<Rightarrow> recommendation" where
  "recommend b async =
    (if b = Low \<and> \<not> async then ConsiderDecline
     else if async \<and> b \<noteq> High then ConsiderAsync
     else Keep)"

text \<open>
  Modelled from the spec: the contract \<^verbatim>\<open>score(meeting, weights)\<close> of MeetingScorer. It
  fails with a ValidationError if \<^verbatim>\<open>duration \<le> 0\<close>, \<^verbatim>\<open>participantCount < 1\<close> or
  \<^verbatim>\<open>expectedSpeakerCount > participantCount\<close>, and otherwise starts from the base 50.
\<close>

definition score_meeting :: "meeting \<Rightarrow> score_weights \<Rightarrow> validation_error + meeting_evaluation" where
  "score_meeting m w =
    (if duration m \<le> 0 then Inl (ValidationError ''duration'' None)
     else if participantCount m < 1 then Inl (ValidationError ''participantCount'' None)
     else if expectedSpeakerCount m > participantCount m then
       Inl (ValidationError ''expectedSpeakerCount'' None)
     else
       let factors = contributions m w;
           total = 50 + sum_list (map snd factors);
           s = clamp total;
           b = classify w s
       in Inr \<lparr>score = s, band = b, contributingFactors = factors,
                recommendation = recommend b (couldBeAsync m)\<rparr>)"

text \<open>
  Modelled from the spec: the loop of CalendarEvaluator over the meetings in input
  order, from position \<open>i\<close>; the first validation failure aborts it, with the position
  attached.
\<close>

fun evaluate_from :: "nat \<Rightarrow> meeting list \<Rightarrow> score_weights \<Rightarrow> validation_error + meeting_evaluation list" where
  "evaluate_from i [] w = Inr []"
| "evaluate_from i (m # ms) w =
    (case score_meeting m w of
       Inl (ValidationError field p) \<Rightarrow> Inl (ValidationError field (Some i))
     | Inr e \<Rightarrow>
        (case evaluate_from (Suc i) ms w of
           Inl err \<Rightarrow> Inl err
         | Inr es \<Rightarrow> Inr (e # es)))"

text \<open>
  Modelled from the spec: the sum of the durations of the meetings whose evaluation
  satisfies a condition (lowValueMinutes, reclaimableMinutes).
\<close>

definition minutes_where :: "(meeting_evaluation \<Rightarrow> bool) \<Rightarrow> meeting list \<Rightarrow> meeting_evaluation list \<Rightarrow> int" where
  "minutes_where p ms es = sum_list (map (\<lambda>(m, e). if p e then duration m else 0) (zip ms es))"

text \<open>
  Modelled from the spec: the contract \<^verbatim>\<open>evaluateAll(meetings, weights)\<close> of
  CalendarEvaluator; \<^verbatim>\<open>averageScore\<close> is absent when there is no meeting.
\<close>

definition evaluateAll :: "meeting list \<Rightarrow> score_weights \<Rightarrow> validation_error + calendar_summary" where
  "evaluateAll meetings w =
    (case evaluate_from 0 meetings w of
       Inl err \<Rightarrow> Inl err
     | Inr es \<Rightarrow>
        Inr \<lparr>evaluations = es,
             meetingCount = length meetings,
             totalMinutes = sum_list (map duration meetings),
             averageScore =
               (if length meetings = 0 then None
                else Some (sum_list (map score es) / of_nat (length meetings))),
             lowValueMinutes = minutes_where (\<lambda>e. band e = Low) meetings es,
             reclaimableMinutes =
               minutes_where (\<lambda>e. recommendation e = ConsiderDecline \<or> recommendation e = ConsiderAsync)
                 meetings es\<rparr>)"

text \<open>A meeting that passes the validation of the scorer.\<close>

definition valid :: "meeting \<Rightarrow> bool" where
  "valid m = (0 < duration m \<and> 1 \<le> participantCount m \<and> expectedSpeakerCount m \<le> participantCount m)"

text \<open>
  Modelled from the spec: the default weights, \<^verbatim>\<open>SCORE_WEIGHTS\<close> of the README with
  \<^verbatim>\<open>longMeetingMinutes\<close> = 60. Neither the spec nor the sources give the default band cut
  points, which are the two arguments.
\<close>

definition default_weights :: "rat \<Rightarrow> rat \<Rightarrow> score_weights" where
  "default_weights high medium =
    \<lparr>DECISION_MADE = 30, AGENDA_PROVIDED = 15, FOLLOW_UP_SENT = 20, COULD_BE_ASYNC = -25,
     PARTICIPATION_RATIO = 20, LONG_MEETING_PENALTY = -10, longMeetingMinutes = 60,
     highBand = high, mediumBand = medium\<rparr>"

text \<open>Scenarios A and B of the specification, and a meeting that fails validation.\<close>

definition scenario_A :: meeting where
  "scenario_A =
    \<lparr>title = ''Product Planning'', duration = 90, participantCount = 10, expectedSpeakerCount = 4,
     hasAgenda = True, decisionMade = Some True, followUpSent = Some False, couldBeAsync = False\<rparr>"

definition scenario_B :: meeting where
  "scenario_B = scenario_A\<lparr>couldBeAsync := True, decisionMade := Some False\<rparr>"

definition invalid_meeting :: meeting where
  "invalid_meeting = scenario_A\<lparr>duration := 0\<rparr>"

section \<open>Properties of suggestion generation\<close>

lemma rating_gt_majority:
  "rating_gt (lengthRatings a k) (of_nat (totalResponses a) / 2) = majority a k"
proof (cases "lengthRatings a k")
  case None
  then show ?thesis by (simp add: majority_def)
next
  case (Some c)
  show ?thesis
  proof (cases c)
    case (Count n)
    have "(of_nat (totalResponses a) / 2 < (of_nat n :: rat))
          = ((of_nat (totalResponses a) :: rat) < of_nat (2 * n))"
      by (simp add: field_simps)
    also have "\<dots> = (totalResponses a < 2 * n)"
      by (rule of_nat_less_iff)
    finally show ?thesis using Some Count by (simp add: majority_def)
  next
    case NaN
    with Some show ?thesis by (simp add: majority_def)
  qed
qed

text \<open>
  C1. For an aggregate with at least one response, the suggestions are exactly those of
  the rules that fire, in the order R1, R2, R3, R4, R5a/R5b: Decision Making iff
  decisionsRate < 0.5 (high iff < 0.2), Action Items iff actionItemsRate < 0.6 (high
  iff < 0.3), Participation iff averageParticipation < 50 (high iff < 30), Meeting
  Format iff couldBeAsyncRate > 0.6 (high iff > 0.8), and at most one Meeting Length
  suggestion: high when more than half of the responses said "Too long", otherwise
  medium when more than half said "Too short".
\<close>

theorem generate_follows_rule_table:
  assumes "0 < totalResponses a"
  shows "map (\<lambda>s. (area s, priority s)) (fst (generateImprovementSuggestions this (Some a))) = rule_table a"
  using assms
  by (simp add: generateImprovementSuggestions_def rule_table_def rule_def push_if_def
      rating_gt_majority Let_def)

theorem generate_follows_rule_table_witness:
  "0 < totalResponses scenario_C \<and>
   map (\<lambda>s. (area s, priority s)) (fst (generateImprovementSuggestions demo (Some scenario_C))) =
     [(''Decision Making'', ''high''), (''Participation'', ''high''),
      (''Meeting Format'', ''high''), (''Meeting Length'', ''high'')]"
proof -
  have pos: "0 < totalResponses scenario_C"
    by (simp add: scenario_C_def)
  have "rule_table scenario_C =
     [(''Decision Making'', ''high''), (''Participation'', ''high''),
      (''Meeting Format'', ''high''), (''Meeting Length'', ''high'')]"
    by (simp add: rule_table_def rule_def majority_def scenario_C_def)
  with pos generate_follows_rule_table [OF pos, of demo] show ?thesis by simp
qed

section \<open>Properties of aggregation\<close>

lemma matches_selected: "matches q fb = Inr (selected q fb)"
  by (cases "meetingId fb")
     (auto simp: matches_def selected_def record_series_def split: option.splits jsval.splits)

lemma filter_try_total: "(\<And>x. p x = Inr (P x)) \<Longrightarrow> filter_try p xs = Inr (filter P xs)"
  by (induction xs) auto

lemma filter_try_matches: "filter_try (matches q) db = Inr (filter (selected q) db)"
  by (rule filter_try_total) (rule matches_selected)

lemma process_response_fields:
  "totalResponses (aggregated (process_response t r)) = totalResponses (aggregated t) + 1"
  "decisionCount (process_response t r) = decisionCount t + count_true decision_made [r]"
  "actionItemsCount (process_response t r) = actionItemsCount t + count_true action_items [r]"
  "asyncCount (process_response t r) = asyncCount t + count_true could_be_async [r]"
  "participationSum (process_response t r) = foldl js_add (participationSum t) (supplied_values [r])"
  "lengthRatings (aggregated (process_response t r)) = foldl increment (lengthRatings (aggregated t)) (answers [r])"
  "recurringMeetingId (aggregated (process_response t r)) = recurringMeetingId (aggregated t)"
  "aggregated.meetingTitle (aggregated (process_response t r)) = aggregated.meetingTitle (aggregated t)"
  by (simp_all add: process_response_def Let_def is_true_def count_true_def supplied_values_def answers_def
      split: option.splits)

lemma fold_responses_total:
  "totalResponses (aggregated (foldl process_response t rs)) = totalResponses (aggregated t) + length rs"
  by (induction rs arbitrary: t) (simp_all add: process_response_fields)

lemma fold_responses_decisions:
  "decisionCount (foldl process_response t rs) = decisionCount t + count_true decision_made rs"
  by (induction rs arbitrary: t) (simp_all add: process_response_fields count_true_def)

lemma fold_responses_actions:
  "actionItemsCount (foldl process_response t rs) = actionItemsCount t + count_true action_items rs"
  by (induction rs arbitrary: t) (simp_all add: process_response_fields count_true_def)

lemma fold_responses_async:
  "asyncCount (foldl process_response t rs) = asyncCount t + count_true could_be_async rs"
  by (induction rs arbitrary: t) (simp_all add: process_response_fields count_true_def)

lemma supplied_values_Cons: "supplied_values (r # rs) = supplied_values [r] @ supplied_values rs"
  by (simp add: supplied_values_def)

lemma fold_responses_participation:
  "participationSum (foldl process_response t rs) =
     foldl js_add (participationSum t) (supplied_values rs)"
proof (induction rs arbitrary: t)
  case Nil
  show ?case by (simp add: supplied_values_def)
next
  case (Cons r rs)
  have "participationSum (foldl process_response t (r # rs)) =
        foldl js_add (foldl js_add (participationSum t) (supplied_values [r])) (supplied_values rs)"
    by (simp add: Cons.IH process_response_fields)
  also have "\<dots> = foldl js_add (participationSum t) (supplied_values (r # rs))"
    by (subst (2) supplied_values_Cons) simp
  finally show ?case .
qed

lemma answers_Cons: "answers (r # rs) = answers [r] @ answers rs"
  by (simp add: answers_def)

lemma fold_responses_ratings:
  "lengthRatings (aggregated (foldl process_response t rs)) =
     foldl increment (lengthRatings (aggregated t)) (answers rs)"
proof (induction rs arbitrary: t)
  case Nil
  show ?case by (simp add: answers_def)
next
  case (Cons r rs)
  have "lengthRatings (aggregated (foldl process_response t (r # rs))) =
        foldl increment (foldl increment (lengthRatings (aggregated t)) (answers [r])) (answers rs)"
    by (simp add: Cons.IH process_response_fields)
  also have "\<dots> = foldl increment (lengthRatings (aggregated t)) (answers (r # rs))"
    by (subst (2) answers_Cons) simp
  finally show ?case .
qed

lemma fold_responses_ids:
  "recurringMeetingId (aggregated (foldl process_response t rs)) = recurringMeetingId (aggregated t)"
  "aggregated.meetingTitle (aggregated (foldl process_response t rs)) = aggregated.meetingTitle (aggregated t)"
  by (induction rs arbitrary: t) (simp_all add: process_response_fields)

lemma fold_feedback_responses:
  "foldl process_feedback t items = foldl process_response t (all_responses items)"
  by (induction items arbitrary: t) (simp_all add: all_responses_def process_feedback_def)

lemma increment_other: "k \<noteq> k' \<Longrightarrow> increment m k' k = m k"
  by (simp add: increment_def)

lemma increment_same:
  "m k = Some (Count c) \<Longrightarrow> k \<noteq> ''__proto__'' \<Longrightarrow> increment m k k = Some (Count (Suc c))"
  by (simp add: increment_def)

lemma fold_increment_count:
  "m k = Some (Count c) \<Longrightarrow> k \<noteq> ''__proto__'' \<Longrightarrow>
   foldl increment m ks k = Some (Count (c + count_list ks k))"
proof (induction ks arbitrary: m c)
  case Nil
  then show ?case by simp
next
  case (Cons k' ks)
  show ?case
  proof (cases "k' = k")
    case True
    with Cons.prems have "increment m k' k = Some (Count (Suc c))"
      by (simp add: increment_same)
    then have "foldl increment (increment m k') ks k = Some (Count (Suc c + count_list ks k))"
      using Cons.prems(2) by (rule Cons.IH)
    with True show ?thesis by simp
  next
    case False
    with Cons.prems have "increment m k' k = Some (Count c)"
      by (simp add: increment_other)
    then have "foldl increment (increment m k') ks k = Some (Count (c + count_list ks k))"
      using Cons.prems(2) by (rule Cons.IH)
    with False show ?thesis by simp
  qed
qed

lemma increment_commute:
  "increment (increment m a) b = increment (increment m b) a"
  by (auto simp: increment_def fun_upd_twist)

lemma fold_increment_perm:
  assumes "mset ks = mset ks'"
  shows "foldl increment m ks = foldl increment m ks'"
proof -
  have "fold (\<lambda>k m. increment m k) ks = fold (\<lambda>k m. increment m k) ks'"
    by (rule fold_multiset_equiv) (auto simp: fun_eq_iff increment_commute assms)
  then show ?thesis by (simp add: foldl_conv_fold)
qed

lemma calculate_rates_fold:
  assumes "rs \<noteq> []"
  shows "calculate_rates (foldl process_response
           \<lparr>aggregated =
              \<lparr>recurringMeetingId = q, aggregated.meetingTitle = t,
               totalResponses = 0, decisionsRate = 0, actionItemsRate = 0,
               averageParticipation = 0, couldBeAsyncRate = 0,
               lengthRatings = initial_ratings\<rparr>,
            decisionCount = 0, actionItemsCount = 0, participationSum = 0, asyncCount = 0\<rparr> rs)
         = summary q t rs"
  using assms
  by (intro aggregated.equality)
     (simp_all add: calculate_rates_def Let_def summary_def rate_def double_sum_def fold_responses_total
        fold_responses_decisions fold_responses_actions fold_responses_async
        fold_responses_participation fold_responses_ratings fold_responses_ids)

lemma selected_responses: "selected q fb \<Longrightarrow> responses fb \<noteq> []"
  by (simp add: selected_def)

lemma aggregate_try_closed_form:
  "getAggregatedFeedback_try this q =
     Inr (case filter (selected q) (feedbackDatabase this) of
            [] \<Rightarrow> None
          | first # rest \<Rightarrow> Some (summary q (meetingTitle first) (all_responses (first # rest))))"
proof (cases "filter (selected q) (feedbackDatabase this)")
  case Nil
  then show ?thesis
    by (simp add: getAggregatedFeedback_try_def filter_try_matches)
next
  case (Cons first rest)
  then have "first \<in> set (filter (selected q) (feedbackDatabase this))"
    by simp
  then have "responses first \<noteq> []"
    by (auto dest: selected_responses)
  then have ne: "all_responses (first # rest) \<noteq> []"
    by (simp add: all_responses_def)
  show ?thesis
    using Cons calculate_rates_fold [OF ne, of q "meetingTitle first"]
    by (simp add: getAggregatedFeedback_try_def filter_try_matches fold_feedback_responses
        initial_ratings_def Let_def del: foldl_Cons)
qed

lemma aggregate_closed_form:
  "fst (getAggregatedFeedback this q) =
     (case filter (selected q) (feedbackDatabase this) of
        [] \<Rightarrow> None
      | first # rest \<Rightarrow> Some (summary q (meetingTitle first) (all_responses (first # rest))))"
  by (simp add: getAggregatedFeedback_def aggregate_try_closed_form)

lemma count_true_le: "count_true f rs \<le> length rs"
  by (simp add: count_true_def)

lemma rate_bounds: "c \<le> n \<Longrightarrow> 0 < n \<Longrightarrow> 0 \<le> rate c n \<and> rate c n \<le> 1"
  by (simp add: rate_def)

lemma count_three:
  assumes "set ks \<subseteq> {a, b, c}" "a \<noteq> b" "a \<noteq> c" "b \<noteq> c"
  shows "count_list ks a + count_list ks b + count_list ks c = length ks"
  using assms by (induction ks) auto

lemma answers_single:
  assumes "\<forall>k. meeting_length (data r) = Some k \<longrightarrow> k \<in> {''Too short'', ''Just right'', ''Too long''}"
  shows "set (answers [r]) \<subseteq> {''Too short'', ''Just right'', ''Too long''}"
    and "length (answers [r]) = (if meeting_length (data r) \<noteq> None then 1 else 0)"
proof -
  show "set (answers [r]) \<subseteq> {''Too short'', ''Just right'', ''Too long''}"
  proof (cases "meeting_length (data r)")
    case None
    then show ?thesis by (simp add: answers_def)
  next
    case (Some k)
    with assms have "k \<in> {''Too short'', ''Just right'', ''Too long''}" by simp
    with Some show ?thesis by (auto simp: answers_def)
  qed
  show "length (answers [r]) = (if meeting_length (data r) \<noteq> None then 1 else 0)"
  proof (cases "meeting_length (data r)")
    case None
    then show ?thesis by (simp add: answers_def)
  next
    case (Some k)
    with assms have "k \<in> {''Too short'', ''Just right'', ''Too long''}" by simp
    then have "k \<noteq> []" by auto
    with Some show ?thesis by (simp add: answers_def)
  qed
qed

lemma answers_options:
  assumes "\<forall>r\<in>set rs. \<forall>k. meeting_length (data r) = Some k \<longrightarrow> k \<in> {''Too short'', ''Just right'', ''Too long''}"
  shows "set (answers rs) \<subseteq> {''Too short'', ''Just right'', ''Too long''}
       \<and> length (answers rs) = length (filter (\<lambda>r. meeting_length (data r) \<noteq> None) rs)"
  using assms
proof (induction rs)
  case Nil
  show ?case by (simp add: answers_def)
next
  case (Cons r rs)
  from Cons.prems have r: "\<forall>k. meeting_length (data r) = Some k \<longrightarrow> k \<in> {''Too short'', ''Just right'', ''Too long''}"
    by simp
  from Cons.prems have "\<forall>r\<in>set rs. \<forall>k. meeting_length (data r) = Some k \<longrightarrow> k \<in> {''Too short'', ''Just right'', ''Too long''}"
    by simp
  then have ih: "set (answers rs) \<subseteq> {''Too short'', ''Just right'', ''Too long''}
       \<and> length (answers rs) = length (filter (\<lambda>r. meeting_length (data r) \<noteq> None) rs)"
    by (rule Cons.IH)
  from answers_single [OF r] ih show ?case
    by (subst answers_Cons, subst answers_Cons) simp
qed

lemma summary_ratings:
  assumes "set (answers rs) \<subseteq> {''Too short'', ''Just right'', ''Too long''}"
  shows "\<exists>s j l. lengthRatings (summary q t rs) ''Too short'' = Some (Count s)
          \<and> lengthRatings (summary q t rs) ''Just right'' = Some (Count j)
          \<and> lengthRatings (summary q t rs) ''Too long'' = Some (Count l)
          \<and> s + j + l = length (answers rs)"
proof -
  let ?ks = "answers rs"
  have s: "foldl increment initial_ratings ?ks ''Too short'' = Some (Count (0 + count_list ?ks ''Too short''))"
    by (rule fold_increment_count) (simp_all add: initial_ratings_def)
  have j: "foldl increment initial_ratings ?ks ''Just right'' = Some (Count (0 + count_list ?ks ''Just right''))"
    by (rule fold_increment_count) (simp_all add: initial_ratings_def)
  have l: "foldl increment initial_ratings ?ks ''Too long'' = Some (Count (0 + count_list ?ks ''Too long''))"
    by (rule fold_increment_count) (simp_all add: initial_ratings_def)
  have "count_list ?ks ''Too short'' + count_list ?ks ''Just right'' + count_list ?ks ''Too long'' = length ?ks"
    using assms by (rule count_three) simp_all
  with s j l show ?thesis by (simp add: summary_def)
qed

lemma demo_selected:
  "all_responses (filter (selected ''rec-123'') (feedbackDatabase demo)) =
     [answer True False (Some 40) False (Some ''Too long''),
      answer False False None True (Some ''Just right''),
      answer True True (Some 20) True (Some ''Too long'')]"
  by (simp add: demo_def selected_def record_series_def all_responses_def)

lemma length_all_responses:
  "length (all_responses items) = sum_list (map (\<lambda>fb. length (responses fb)) items)"
  by (simp add: all_responses_def length_concat comp_def)

text \<open>
  C3. The aggregate is determined by the selected records alone, those whose series is the
  queried id, whose status is \<open>completed\<close> and which have at least one response: two
  collections with the same selected records give the same aggregate, and the responses
  counted are exactly those of the selected records.
\<close>

theorem aggregate_considers_selected_only:
  assumes "filter (selected q) (feedbackDatabase this) = filter (selected q) (feedbackDatabase this')"
  shows "fst (getAggregatedFeedback this q) = fst (getAggregatedFeedback this' q)
    \<and> map_option totalResponses (fst (getAggregatedFeedback this q)) =
        (if filter (selected q) (feedbackDatabase this) = [] then None
         else Some (sum_list (map (\<lambda>fb. length (responses fb))
                      (filter (selected q) (feedbackDatabase this)))))"
proof
  show "fst (getAggregatedFeedback this q) = fst (getAggregatedFeedback this' q)"
    by (simp add: aggregate_closed_form assms)
  show "map_option totalResponses (fst (getAggregatedFeedback this q)) =
        (if filter (selected q) (feedbackDatabase this) = [] then None
         else Some (sum_list (map (\<lambda>fb. length (responses fb))
                      (filter (selected q) (feedbackDatabase this)))))"
  proof (cases "filter (selected q) (feedbackDatabase this)")
    case Nil
    then show ?thesis by (simp add: aggregate_closed_form)
  next
    case (Cons first rest)
    then show ?thesis
      by (simp add: aggregate_closed_form summary_def length_all_responses)
  qed
qed

theorem aggregate_considers_selected_only_witness:
  "filter (selected ''rec-123'') (feedbackDatabase demo) =
     filter (selected ''rec-123'') (feedbackDatabase demo_selected_only)
   \<and> feedbackDatabase demo \<noteq> feedbackDatabase demo_selected_only
   \<and> fst (getAggregatedFeedback demo ''rec-123'') = fst (getAggregatedFeedback demo_selected_only ''rec-123'')
   \<and> map_option totalResponses (fst (getAggregatedFeedback demo ''rec-123'')) = Some 3"
proof -
  have h: "filter (selected ''rec-123'') (feedbackDatabase demo) =
     filter (selected ''rec-123'') (feedbackDatabase demo_selected_only)"
    by (simp add: demo_selected_only_def demo_def selected_def record_series_def)
  have ne: "feedbackDatabase demo \<noteq> feedbackDatabase demo_selected_only"
    by (simp add: demo_selected_only_def demo_def)
  have sel: "filter (selected ''rec-123'') (feedbackDatabase demo) \<noteq> []"
    by (simp add: demo_def selected_def record_series_def)
  have n: "sum_list (map (\<lambda>fb. length (responses fb))
              (filter (selected ''rec-123'') (feedbackDatabase demo))) = 3"
    by (simp add: demo_def selected_def record_series_def answer_def)
  note inst = aggregate_considers_selected_only [OF h]
  from inst have eq: "fst (getAggregatedFeedback demo ''rec-123'') =
      fst (getAggregatedFeedback demo_selected_only ''rec-123'')"
    by (rule conjunct1)
  from inst have "map_option totalResponses (fst (getAggregatedFeedback demo ''rec-123'')) =
        (if filter (selected ''rec-123'') (feedbackDatabase demo) = [] then None
         else Some (sum_list (map (\<lambda>fb. length (responses fb))
                      (filter (selected ''rec-123'') (feedbackDatabase demo)))))"
    by (rule conjunct2)
  then have "map_option totalResponses (fst (getAggregatedFeedback demo ''rec-123'')) = Some 3"
    unfolding n using sel by simp
  with h ne eq show ?thesis by blast
qed

text \<open>
  C4. Nothing is thrown inside \<^verbatim>\<open>getAggregatedFeedback\<close> for any collection and query;
  with no selected record the result is \<^verbatim>\<open>null\<close>; an aggregate that is returned has
  totalResponses > 0, so no rate is a division by zero; and suggestion generation returns
  the empty list for an absent aggregate and for one with totalResponses = 0.
\<close>

theorem aggregation_never_raises:
  "(\<exists>r. getAggregatedFeedback_try this q = Inr r)
   \<and> (filter (selected q) (feedbackDatabase this) = [] \<longrightarrow>
        getAggregatedFeedback_try this q = Inr None \<and> fst (getAggregatedFeedback this q) = None)
   \<and> (case fst (getAggregatedFeedback this q) of None \<Rightarrow> True | Some a \<Rightarrow> 0 < totalResponses a)
   \<and> fst (generateImprovementSuggestions this None) = []
   \<and> (totalResponses a = 0 \<longrightarrow> fst (generateImprovementSuggestions this (Some a)) = [])"
proof (intro conjI impI)
  show "\<exists>r. getAggregatedFeedback_try this q = Inr r"
    by (simp add: aggregate_try_closed_form)
  show "getAggregatedFeedback_try this q = Inr None"
    if "filter (selected q) (feedbackDatabase this) = []"
    using that by (simp add: aggregate_try_closed_form)
  show "fst (getAggregatedFeedback this q) = None"
    if "filter (selected q) (feedbackDatabase this) = []"
    using that by (simp add: aggregate_closed_form)
  show "case fst (getAggregatedFeedback this q) of None \<Rightarrow> True | Some a \<Rightarrow> 0 < totalResponses a"
  proof (cases "filter (selected q) (feedbackDatabase this)")
    case Nil
    then show ?thesis by (simp add: aggregate_closed_form)
  next
    case (Cons first rest)
    then have "first \<in> set (filter (selected q) (feedbackDatabase this))"
      by simp
    then have "responses first \<noteq> []"
      by (auto dest: selected_responses)
    with Cons show ?thesis
      by (simp add: aggregate_closed_form summary_def all_responses_def)
  qed
  show "fst (generateImprovementSuggestions this None) = []"
    by (simp add: generateImprovementSuggestions_def)
  show "fst (generateImprovementSuggestions this (Some a)) = []" if "totalResponses a = 0"
    using that by (simp add: generateImprovementSuggestions_def)
qed

theorem aggregation_never_raises_witness:
  "filter (selected ''rec-456'') (feedbackDatabase demo) = []
   \<and> getAggregatedFeedback_try demo ''rec-456'' = Inr None
   \<and> fst (getAggregatedFeedback demo ''rec-456'') = None
   \<and> totalResponses no_responses = 0
   \<and> fst (generateImprovementSuggestions demo (Some no_responses)) = []"
proof -
  have h: "filter (selected ''rec-456'') (feedbackDatabase demo) = []"
    by (simp add: demo_def selected_def record_series_def)
  have z: "totalResponses no_responses = 0"
    by (simp add: no_responses_def)
  from aggregation_never_raises [of demo "''rec-456''" no_responses] h z show ?thesis
    by simp
qed

text \<open>
  The state that the methods pass along registers a write: a successful
  \<^verbatim>\<open>submitFeedback\<close> returns a collection that differs from the one it received.
\<close>

lemma findIndex_Some: "findIndex p xs = Some i \<Longrightarrow> i < length xs \<and> p (xs ! i)"
proof (induction xs arbitrary: i)
  case Nil
  then show ?case by simp
next
  case (Cons x xs)
  show ?case
  proof (cases "p x")
    case True
    with Cons.prems show ?thesis by simp
  next
    case False
    with Cons.prems obtain j where j: "findIndex p xs = Some j" "i = Suc j"
      by (auto split: option.splits)
    from Cons.IH [OF j(1)] j(2) show ?thesis by simp
  qed
qed

lemma submitFeedback_writes:
  assumes "fst (submitFeedback this feedbackId rs)"
  shows "snd (submitFeedback this feedbackId rs) \<noteq> this"
proof -
  from assms obtain i where i: "findIndex (\<lambda>fb. id' fb = feedbackId) (feedbackDatabase this) = Some i"
    by (auto simp: submitFeedback_def split: option.splits)
  then have len: "i < length (feedbackDatabase this)"
    by (auto dest: findIndex_Some)
  let ?fb = "feedbackDatabase this ! i"
  have "responses (feedbackDatabase (snd (submitFeedback this feedbackId rs)) ! i) =
        responses ?fb @ [\<lparr>data = rs\<rparr>]"
    using len by (simp add: submitFeedback_def i Let_def)
  then have "responses (feedbackDatabase (snd (submitFeedback this feedbackId rs)) ! i) \<noteq> responses ?fb"
    by simp
  then show ?thesis by auto
qed

text \<open>
  C6. Neither \<^verbatim>\<open>getAggregatedFeedback\<close> nor \<^verbatim>\<open>generateImprovementSuggestions\<close> changes
  the collection: the database, its records, their status and their responses are after
  the call what they were before.
\<close>

theorem calls_leave_collection_unchanged:
  "snd (getAggregatedFeedback this q) = this
   \<and> snd (generateImprovementSuggestions this aggregatedFeedback) = this"
  by (simp add: getAggregatedFeedback_def generateImprovementSuggestions_def Let_def
      split: sum.split option.split)

lemma mset_concat_map:
  "mset (concat (map f xs)) = sum_mset (image_mset (\<lambda>x. mset (f x)) (mset xs))"
  by (induction xs) simp_all

lemma mset_all_responses:
  "mset (all_responses items) = sum_mset (image_mset (\<lambda>fb. mset (responses fb)) (mset items))"
  unfolding all_responses_def by (rule mset_concat_map)

lemma all_responses_permuted_records:
  assumes "mset xs = mset ys"
  shows "mset (all_responses (filter P xs)) = mset (all_responses (filter P ys))"
proof -
  have "mset (filter P xs) = mset (filter P ys)"
    using assms by simp
  then show ?thesis
    by (simp only: mset_all_responses)
qed

lemma responses_permuted_selected:
  assumes "responses_permuted fb fb'"
  shows "selected q fb' = selected q fb"
proof -
  from assms have eq: "fb' = fb\<lparr>responses := responses fb'\<rparr>"
    and m: "mset (responses fb') = mset (responses fb)"
    by (simp_all add: responses_permuted_def)
  from m have "(responses fb' = []) = (responses fb = [])"
    by (metis mset_zero_iff)
  moreover have "meetingId fb' = meetingId fb" "status fb' = status fb"
    by (subst eq, simp)+
  ultimately show ?thesis
    by (simp add: selected_def record_series_def)
qed

lemma all_responses_permuted_responses:
  assumes "list_all2 responses_permuted xs ys"
  shows "mset (all_responses (filter (selected q) ys)) = mset (all_responses (filter (selected q) xs))"
  using assms
proof (induction rule: list_all2_induct)
  case Nil
  show ?case by simp
next
  case (Cons fb xs fb' ys)
  from Cons.hyps(1) have "selected q fb' = selected q fb"
    by (rule responses_permuted_selected)
  moreover from Cons.hyps(1) have "mset (responses fb') = mset (responses fb)"
    by (simp add: responses_permuted_def)
  ultimately show ?case
    using Cons.IH by (simp add: all_responses_def)
qed

lemma count_true_mset:
  "count_true f rs = size (filter_mset (\<lambda>r. f (data r) = Some True) (mset rs))"
  by (simp add: count_true_def flip: mset_filter)

lemma selected_none_iff:
  "(filter (selected q) items = []) = (all_responses (filter (selected q) items) = [])"
  by (induction items) (auto simp: all_responses_def selected_def)

subsection \<open>Rounding to a double\<close>

text \<open>
  The double nearest to 0.1, the sum of the doubles 0.1 and 0.2 (0.30000000000000004), and
  a tie that goes to the even significand; the binade that \<open>exponent\<close> names; and the
  distance of a rounded value, at most half a unit.
\<close>

lemma double_examples:
  "nearest_double (1 / 10) = 3602879701896397 / 2 ^ 55"
  "js_add (nearest_double (1 / 10)) (nearest_double (2 / 10)) = 5404319552844596 / 2 ^ 54"
  "nearest_double (2 ^ 53 + 1) = 2 ^ 53"
  by code_simp+

lemma exponent_ge1:
  assumes "1 \<le> x"
  shows "pow2 (exponent x) \<le> x \<and> x < pow2 (exponent x + 1)"
proof -
  define n where "n = \<lfloor>x\<rfloor>"
  define b where "b = bitlen n"
  from assms have n: "0 < n" by (simp add: n_def)
  have nx: "of_int n \<le> x" "x < of_int n + 1"
    unfolding n_def by linarith+
  from bitlen_bounds [OF n] have lo: "(2::int) ^ nat (b - 1) \<le> n" and hi: "n < 2 ^ nat b"
    unfolding b_def by simp_all
  from n have b1: "1 \<le> b"
    unfolding b_def using bitlen_eq_zero_iff [of n] bitlen_nonneg [of n] by simp
  have e: "exponent x = b - 1"
    using assms by (simp add: exponent_def b_def n_def)
  from lo have "(of_int (2 ^ nat (b - 1)) :: rat) \<le> of_int n"
    by (simp only: of_int_le_iff)
  with nx(1) have "(of_int (2 ^ nat (b - 1)) :: rat) \<le> x"
    by (rule order_trans [rotated])
  then have l: "(2::rat) ^ nat (b - 1) \<le> x"
    by (simp only: of_int_power of_int_numeral)
  from hi have "n + 1 \<le> 2 ^ nat b" by simp
  then have "(of_int (n + 1) :: rat) \<le> of_int (2 ^ nat b)"
    by (simp only: of_int_le_iff)
  then have "(of_int n + 1 :: rat) \<le> 2 ^ nat b"
    by (simp only: of_int_power of_int_numeral of_int_add of_int_1)
  with nx(2) have u: "x < 2 ^ nat b"
    by (rule less_le_trans)
  have p1: "pow2 (b - 1) = 2 ^ nat (b - 1)"
    using b1 by (simp add: pow2_def)
  have p2: "pow2 (b - 1 + 1) = 2 ^ nat b"
    using b1 by (simp add: pow2_def)
  from l u show ?thesis
    unfolding e p1 p2 by simp
qed

lemma exponent_lt1:
  assumes "0 < x" "x < 1"
  shows "pow2 (exponent x) \<le> x \<and> x < pow2 (exponent x + 1)"
proof -
  define y where "y = 1 / x"
  define m where "m = \<lceil>y\<rceil> - 1"
  define c where "c = bitlen m"
  from assms have y: "1 < y" by (simp add: y_def)
  have my: "of_int m < y" "y \<le> of_int m + 1"
    unfolding m_def by linarith+
  from y my(2) have m: "0 < m" by linarith
  from bitlen_bounds [OF m] have lo: "(2::int) ^ nat (c - 1) \<le> m" and hi: "m < 2 ^ nat c"
    unfolding c_def by simp_all
  from m have c1: "1 \<le> c"
    unfolding c_def using bitlen_eq_zero_iff [of m] bitlen_nonneg [of m] by simp
  have e: "exponent x = - c"
    using assms by (simp add: exponent_def c_def m_def y_def)
  have x: "x = 1 / y" and ypos: "0 < y"
    using assms by (simp_all add: y_def)
  from lo have "(of_int (2 ^ nat (c - 1)) :: rat) \<le> of_int m"
    by (simp only: of_int_le_iff)
  then have "(2::rat) ^ nat (c - 1) \<le> of_int m"
    by (simp only: of_int_power of_int_numeral)
  with my(1) have l: "(2::rat) ^ nat (c - 1) < y"
    by (rule le_less_trans [rotated])
  from hi have "m + 1 \<le> 2 ^ nat c" by simp
  then have "(of_int (m + 1) :: rat) \<le> of_int (2 ^ nat c)"
    by (simp only: of_int_le_iff)
  then have "(of_int m + 1 :: rat) \<le> 2 ^ nat c"
    by (simp only: of_int_power of_int_numeral of_int_add of_int_1)
  with my(2) have u: "y \<le> 2 ^ nat c"
    by (rule order_trans)
  have p1: "pow2 (- c) = 1 / 2 ^ nat c"
    using c1 by (simp add: pow2_def)
  have p2: "pow2 (- c + 1) = 1 / 2 ^ nat (c - 1)"
  proof (cases "c = 1")
    case True
    then show ?thesis by (simp add: pow2_def)
  next
    case False
    with c1 have "\<not> 0 \<le> - c + 1" "nat (- (- c + 1)) = nat (c - 1)" by simp_all
    then show ?thesis by (simp only: pow2_def if_False)
  qed
  have "1 / 2 ^ nat c \<le> 1 / y"
    using u ypos by (intro divide_left_mono) simp_all
  then have a: "1 / 2 ^ nat c \<le> x"
    by (simp only: x)
  have "1 / y < 1 / 2 ^ nat (c - 1)"
    using l ypos by (intro divide_strict_left_mono) simp_all
  then have b: "x < 1 / 2 ^ nat (c - 1)"
    by (simp only: x)
  from a b show ?thesis
    unfolding e p1 p2 by (rule conjI)
qed

lemma pow2_exponent:
  assumes "0 < x"
  shows "pow2 (exponent x) \<le> x \<and> x < pow2 (exponent x + 1)"
  using assms exponent_ge1 [of x] exponent_lt1 [of x] by (cases "1 \<le> x") simp_all

lemma round_even_near: "\<bar>of_int (round_even y) - y\<bar> \<le> 1 / 2"
proof -
  let ?f = "\<lfloor>y\<rfloor>"
  have b: "of_int ?f \<le> y" "y < of_int ?f + 1"
    by linarith+
  consider "y - of_int ?f < 1 / 2" | "1 / 2 < y - of_int ?f" | "y - of_int ?f = 1 / 2"
    by linarith
  then show ?thesis
  proof cases
    case 1
    then have "round_even y = ?f" by (simp add: round_even_def Let_def)
    with 1 b show ?thesis by simp
  next
    case 2
    then have "round_even y = ?f + 1" by (simp add: round_even_def Let_def)
    with 2 b show ?thesis by simp
  next
    case 3
    then have "round_even y = ?f \<or> round_even y = ?f + 1"
      by (simp add: round_even_def Let_def)
    with 3 b show ?thesis by auto
  qed
qed

subsection \<open>Sums of whole numbers are exact\<close>

lemma round_even_int: "round_even (of_int j) = j"
  by (simp add: round_even_def)

lemma pow2_pos: "0 < pow2 e"
  by (simp add: pow2_def)

lemma round_to_unit_int:
  assumes "m \<le> 0"
  shows "of_int (round_even (of_int k / pow2 m)) * pow2 m = (of_int k :: rat)"
proof -
  have "of_int k / pow2 m = (of_int (k * 2 ^ nat (- m)) :: rat)"
    using assms by (simp add: pow2_def)
  then have "round_even (of_int k / pow2 m) = k * 2 ^ nat (- m)"
    by (simp only: round_even_int)
  then show ?thesis
    using assms by (simp add: pow2_def)
qed

lemma exponent_int_le:
  assumes "1 \<le> k" "k < 2 ^ 53"
  shows "exponent (of_int k) \<le> 52" "0 \<le> exponent (of_int k)"
proof -
  from assms(1) have pos: "0 < k" by simp
  have e: "exponent (of_int k) = bitlen k - 1"
    using assms(1) by (simp add: exponent_def)
  from bitlen_bounds [OF pos] have "(2::int) ^ nat (bitlen k - 1) \<le> k" by simp
  then have lt: "(2::int) ^ nat (bitlen k - 1) < 2 ^ 53"
    using assms(2) by (rule le_less_trans)
  have "nat (bitlen k - 1) < 53"
    by (rule power_less_imp_less_exp [OF _ lt]) simp
  then show "exponent (of_int k) \<le> 52" by (simp add: e)
  from pos have "bitlen k \<noteq> 0" by (simp add: bitlen_eq_zero_iff)
  with bitlen_nonneg [of k] show "0 \<le> exponent (of_int k)" by (simp add: e)
qed

lemma nearest_double_int:
  assumes "0 \<le> k" "k < 2 ^ 53"
  shows "nearest_double (of_int k) = of_int k"
proof (cases "k = 0")
  case True
  then show ?thesis by (simp add: nearest_double_def)
next
  case False
  with assms(1) have k: "1 \<le> k" by simp
  let ?m = "max (exponent \<bar>of_int k\<bar> - 52) (- 1074)"
  have abs: "\<bar>of_int k :: rat\<bar> = of_int k"
    using assms(1) by simp
  from exponent_int_le [OF k assms(2)] have "?m \<le> 0"
    unfolding abs by simp
  then have "of_int (round_even (of_int k / pow2 ?m)) * pow2 ?m = (of_int k :: rat)"
    by (rule round_to_unit_int)
  with False show ?thesis
    by (simp add: nearest_double_def Let_def)
qed

lemma whole_nat:
  assumes "whole p"
  shows "\<exists>n. p = of_nat n"
proof -
  from assms have "0 \<le> p" and g: "of_int \<lfloor>p\<rfloor> = p"
    unfolding whole_def by blast+
  then have f: "0 \<le> \<lfloor>p\<rfloor>" by simp
  from g have "p = of_int \<lfloor>p\<rfloor>" by (rule sym)
  also have "\<dots> = of_nat (nat \<lfloor>p\<rfloor>)"
    using f by simp
  finally show ?thesis ..
qed

lemma js_add_whole:
  assumes "whole a" "whole b" "a + b < 2 ^ 53"
  shows "js_add a b = a + b" "whole (a + b)"
proof -
  from assms(1,2) obtain m n where mn: "a = of_nat m" "b = of_nat n"
    by (auto dest!: whole_nat)
  then have s: "a + b = of_int (int (m + n))" by simp
  from assms(3) have "(of_int (int (m + n)) :: rat) < of_int (2 ^ 53)"
    unfolding s by simp
  then have "int (m + n) < 2 ^ 53"
    by (simp only: of_int_less_iff)
  then have "nearest_double (of_int (int (m + n))) = of_int (int (m + n))"
    by (intro nearest_double_int) simp_all
  then show "js_add a b = a + b"
    by (simp only: js_add_def s)
  show "whole (a + b)"
    unfolding s by (simp add: whole_def)
qed

lemma foldl_js_add_whole:
  assumes "list_all whole vs" "whole s" "s + sum_list vs < 2 ^ 53"
  shows "foldl js_add s vs = s + sum_list vs"
  using assms
proof (induction vs arbitrary: s)
  case Nil
  then show ?case by simp
next
  case (Cons v vs)
  from Cons.prems(1) have v: "whole v" and vs: "list_all whole vs" by simp_all
  from vs have "0 \<le> sum_list vs"
    by (induction vs) (auto simp: whole_def)
  with Cons.prems(3) have b: "s + v < 2 ^ 53" by simp
  from js_add_whole [OF Cons.prems(2) v b]
  have eq: "js_add s v = s + v" and w: "whole (s + v)" by simp_all
  from Cons.prems(3) have "(s + v) + sum_list vs < 2 ^ 53" by (simp add: add.assoc)
  from Cons.IH [OF vs w this] show ?case
    by (simp add: eq add.assoc)
qed

lemma supplied_values_sum: "sum_list (supplied_values rs) = sum_list (map supplied rs)"
  by (induction rs) (auto simp: supplied_values_def supplied_def split: option.splits)

lemma supplied_values_whole:
  "list_all whole (map supplied rs) \<Longrightarrow> list_all whole (supplied_values rs)"
  by (induction rs) (auto simp: supplied_values_def supplied_def split: option.splits)

lemma double_sum_exact:
  assumes "list_all whole (map supplied rs)" "sum_list (map supplied rs) < 2 ^ 53"
  shows "double_sum (supplied_values rs) = sum_list (map supplied rs)"
proof -
  have "foldl js_add 0 (supplied_values rs) = 0 + sum_list (supplied_values rs)"
    using assms by (intro foldl_js_add_whole)
      (simp_all add: supplied_values_whole supplied_values_sum whole_def)
  then show ?thesis
    by (simp add: double_sum_def supplied_values_sum)
qed

subsection \<open>The statistics of the aggregate\<close>

text \<open>
  C2, amended. When at least one record is selected, the aggregate exists and, over all
  responses of all selected records (every submission counts): totalResponses is their
  number; decisionsRate, actionItemsRate and couldBeAsyncRate are the numbers of responses
  whose \<^verbatim>\<open>decision_made\<close>, \<^verbatim>\<open>action_items\<close>, \<^verbatim>\<open>could_be_async\<close> answer is true,
  divided by totalResponses, each between 0 and 1; averageParticipation is the sum of the
  supplied participation values as the double additions leave it, taken left to right in
  database order with every partial sum rounded to the nearest double, divided by
  totalResponses (an empty sum, hence 0, when no response supplied a value); it is the
  exact sum divided by totalResponses when the supplied values are whole numbers with a
  sum below \<open>2 ^ 53\<close>; and, when every \<^verbatim>\<open>meeting_length\<close> answer is one of the three
  options, the three counters of lengthRatings add up to the number of responses that
  answered \<^verbatim>\<open>meeting_length\<close>.
\<close>

theorem aggregate_statistics_double_sum:
  assumes "filter (selected q) (feedbackDatabase this) \<noteq> []"
  shows "\<exists>a. fst (getAggregatedFeedback this q) = Some a
    \<and> totalResponses a = length (all_responses (filter (selected q) (feedbackDatabase this)))
    \<and> decisionsRate a = of_nat (count_true decision_made (all_responses (filter (selected q) (feedbackDatabase this)))) / of_nat (totalResponses a)
    \<and> actionItemsRate a = of_nat (count_true action_items (all_responses (filter (selected q) (feedbackDatabase this)))) / of_nat (totalResponses a)
    \<and> couldBeAsyncRate a = of_nat (count_true could_be_async (all_responses (filter (selected q) (feedbackDatabase this)))) / of_nat (totalResponses a)
    \<and> 0 \<le> decisionsRate a \<and> decisionsRate a \<le> 1
    \<and> 0 \<le> actionItemsRate a \<and> actionItemsRate a \<le> 1
    \<and> 0 \<le> couldBeAsyncRate a \<and> couldBeAsyncRate a \<le> 1
    \<and> averageParticipation a =
         double_sum (supplied_values (all_responses (filter (selected q) (feedbackDatabase this))))
           / of_nat (totalResponses a)
    \<and> (list_all whole (map supplied (all_responses (filter (selected q) (feedbackDatabase this))))
         \<and> sum_list (map supplied (all_responses (filter (selected q) (feedbackDatabase this)))) < 2 ^ 53 \<longrightarrow>
        averageParticipation a =
          sum_list (map supplied (all_responses (filter (selected q) (feedbackDatabase this))))
            / of_nat (totalResponses a))
    \<and> ((\<forall>r\<in>set (all_responses (filter (selected q) (feedbackDatabase this))). \<forall>k.
            meeting_length (data r) = Some k \<longrightarrow> k \<in> {''Too short'', ''Just right'', ''Too long''}) \<longrightarrow>
        (\<exists>s j l. lengthRatings a ''Too short'' = Some (Count s)
          \<and> lengthRatings a ''Just right'' = Some (Count j)
          \<and> lengthRatings a ''Too long'' = Some (Count l)
          \<and> s + j + l = length (filter (\<lambda>r. meeting_length (data r) \<noteq> None)
                              (all_responses (filter (selected q) (feedbackDatabase this))))))"
proof -
  let ?rs = "all_responses (filter (selected q) (feedbackDatabase this))"
  from assms obtain first rest where items: "filter (selected q) (feedbackDatabase this) = first # rest"
    by (cases "filter (selected q) (feedbackDatabase this)") auto
  let ?a = "summary q (meetingTitle first) ?rs"
  have res: "fst (getAggregatedFeedback this q) = Some ?a"
    by (simp add: aggregate_closed_form items)
  have "first \<in> set (filter (selected q) (feedbackDatabase this))"
    using items by simp
  then have "responses first \<noteq> []"
    by (auto dest: selected_responses)
  then have pos: "0 < length ?rs"
    by (simp add: items all_responses_def)
  have tot: "totalResponses ?a = length ?rs"
    by (simp add: summary_def)
  have d: "decisionsRate ?a = rate (count_true decision_made ?rs) (length ?rs)"
    and ai: "actionItemsRate ?a = rate (count_true action_items ?rs) (length ?rs)"
    and ca: "couldBeAsyncRate ?a = rate (count_true could_be_async ?rs) (length ?rs)"
    and ap: "averageParticipation ?a = double_sum (supplied_values ?rs) / of_nat (length ?rs)"
    by (simp_all add: summary_def)
  have bd: "0 \<le> decisionsRate ?a \<and> decisionsRate ?a \<le> 1"
    unfolding d using count_true_le pos by (rule rate_bounds)
  have bai: "0 \<le> actionItemsRate ?a \<and> actionItemsRate ?a \<le> 1"
    unfolding ai using count_true_le pos by (rule rate_bounds)
  have bca: "0 \<le> couldBeAsyncRate ?a \<and> couldBeAsyncRate ?a \<le> 1"
    unfolding ca using count_true_le pos by (rule rate_bounds)
  have ex: "list_all whole (map supplied ?rs) \<and> sum_list (map supplied ?rs) < 2 ^ 53 \<longrightarrow>
        averageParticipation ?a = sum_list (map supplied ?rs) / of_nat (totalResponses ?a)"
  proof
    assume "list_all whole (map supplied ?rs) \<and> sum_list (map supplied ?rs) < 2 ^ 53"
    then have "double_sum (supplied_values ?rs) = sum_list (map supplied ?rs)"
      by (intro double_sum_exact) blast+
    then show "averageParticipation ?a = sum_list (map supplied ?rs) / of_nat (totalResponses ?a)"
      by (simp only: ap tot)
  qed
  have lr: "(\<forall>r\<in>set ?rs. \<forall>k.
            meeting_length (data r) = Some k \<longrightarrow> k \<in> {''Too short'', ''Just right'', ''Too long''}) \<longrightarrow>
        (\<exists>s j l. lengthRatings ?a ''Too short'' = Some (Count s)
          \<and> lengthRatings ?a ''Just right'' = Some (Count j)
          \<and> lengthRatings ?a ''Too long'' = Some (Count l)
          \<and> s + j + l = length (filter (\<lambda>r. meeting_length (data r) \<noteq> None) ?rs))"
  proof
    assume h: "\<forall>r\<in>set ?rs. \<forall>k.
            meeting_length (data r) = Some k \<longrightarrow> k \<in> {''Too short'', ''Just right'', ''Too long''}"
    from answers_options [OF h] have sub: "set (answers ?rs) \<subseteq> {''Too short'', ''Just right'', ''Too long''}"
      and len: "length (answers ?rs) = length (filter (\<lambda>r. meeting_length (data r) \<noteq> None) ?rs)"
      by simp_all
    from summary_ratings [OF sub, of q "meetingTitle first"] len
    show "\<exists>s j l. lengthRatings ?a ''Too short'' = Some (Count s)
          \<and> lengthRatings ?a ''Just right'' = Some (Count j)
          \<and> lengthRatings ?a ''Too long'' = Some (Count l)
          \<and> s + j + l = length (filter (\<lambda>r. meeting_length (data r) \<noteq> None) ?rs)"
      by simp
  qed
  have rates: "decisionsRate ?a = of_nat (count_true decision_made ?rs) / of_nat (totalResponses ?a)"
    "actionItemsRate ?a = of_nat (count_true action_items ?rs) / of_nat (totalResponses ?a)"
    "couldBeAsyncRate ?a = of_nat (count_true could_be_async ?rs) / of_nat (totalResponses ?a)"
    "averageParticipation ?a = double_sum (supplied_values ?rs) / of_nat (totalResponses ?a)"
    by (simp_all only: d ai ca ap tot rate_def)
  from res tot rates bd bai bca ex lr show ?thesis
    by (intro exI [of _ ?a]) blast
qed

theorem aggregate_statistics_double_sum_witness:
  "filter (selected ''rec-123'') (feedbackDatabase demo) \<noteq> [] \<and>
   (\<exists>a. fst (getAggregatedFeedback demo ''rec-123'') = Some a
      \<and> totalResponses a = 3 \<and> decisionsRate a = 2 / 3 \<and> actionItemsRate a = 1 / 3
      \<and> couldBeAsyncRate a = 2 / 3 \<and> averageParticipation a = 20
      \<and> (\<exists>s j l. lengthRatings a ''Too short'' = Some (Count s)
            \<and> lengthRatings a ''Just right'' = Some (Count j)
            \<and> lengthRatings a ''Too long'' = Some (Count l) \<and> s + j + l = 3))"
proof -
  have h: "filter (selected ''rec-123'') (feedbackDatabase demo) \<noteq> []"
    by (simp add: demo_def selected_def record_series_def)
  have opts: "\<forall>r\<in>set (all_responses (filter (selected ''rec-123'') (feedbackDatabase demo))). \<forall>k.
            meeting_length (data r) = Some k \<longrightarrow> k \<in> {''Too short'', ''Just right'', ''Too long''}"
    by (simp add: demo_selected answer_def)
  have w: "list_all whole (map supplied (all_responses (filter (selected ''rec-123'') (feedbackDatabase demo))))
      \<and> sum_list (map supplied (all_responses (filter (selected ''rec-123'') (feedbackDatabase demo)))) < 2 ^ 53"
    by (simp add: demo_selected answer_def supplied_def whole_def)
  from aggregate_statistics_double_sum [OF h] opts w h show ?thesis
    by (auto simp add: demo_selected answer_def count_true_def supplied_def)
qed

text \<open>
  C2 as stated fails. With one selected record whose three responses answer 28.7, 99.6
  and 21.7 (as doubles), the averageParticipation is not the sum of the three values
  divided by 3, and it does not round to the same double either: the additions give
  149.99999999999997 where the exact sum rounds to 150.
\<close>

theorem average_differs_from_exact_quotient:
  "map_option totalResponses (fst (getAggregatedFeedback fractions ''rec-123'')) = Some 3
   \<and> map_option averageParticipation (fst (getAggregatedFeedback fractions ''rec-123'')) \<noteq>
       Some ((nearest_double (287 / 10) + nearest_double (996 / 10) + nearest_double (217 / 10)) / 3)
   \<and> map_option (nearest_double \<circ> averageParticipation) (fst (getAggregatedFeedback fractions ''rec-123'')) \<noteq>
       Some (nearest_double ((nearest_double (287 / 10) + nearest_double (996 / 10) + nearest_double (217 / 10)) / 3))"
  by code_simp

subsection \<open>Order of records and responses\<close>

lemma count_rates_summary_perm:
  assumes "mset rs = mset rs'"
  shows "count_rates (summary q t rs) = count_rates (summary q t' rs')"
proof -
  have len: "length rs = length rs'"
    using assms by (rule mset_eq_length)
  have "mset (answers rs) = mset (answers rs')"
    unfolding answers_def mset_concat_map using assms by simp
  then have "foldl increment initial_ratings (answers rs) = foldl increment initial_ratings (answers rs')"
    by (rule fold_increment_perm)
  then show ?thesis
    by (simp add: count_rates_def summary_def len count_true_mset assms)
qed

lemma whole_sum_perm:
  assumes "mset rs = mset rs'"
    and "list_all whole (map supplied rs)" "sum_list (map supplied rs) < 2 ^ 53"
  shows "list_all whole (map supplied rs')" "sum_list (map supplied rs') = sum_list (map supplied rs)"
proof -
  from assms(1) have "set rs' = set rs"
    by (metis set_mset_mset)
  with assms(2) show "list_all whole (map supplied rs')"
    by (simp add: list_all_iff)
  have "sum_list (map supplied rs') = sum_mset (image_mset supplied (mset rs'))"
    by (simp flip: sum_mset_sum_list)
  also have "\<dots> = sum_list (map supplied rs)"
    unfolding assms(1) [symmetric] by (simp flip: sum_mset_sum_list)
  finally show "sum_list (map supplied rs') = sum_list (map supplied rs)" .
qed

lemma rates_summary_whole_perm:
  assumes "mset rs = mset rs'"
    and "list_all whole (map supplied rs)" "sum_list (map supplied rs) < 2 ^ 53"
  shows "rates (summary q t rs') = rates (summary q t' rs)"
proof -
  note p = whole_sum_perm [OF assms]
  have "double_sum (supplied_values rs) = sum_list (map supplied rs)"
    using assms(2,3) by (rule double_sum_exact)
  moreover have "double_sum (supplied_values rs') = sum_list (map supplied rs')"
    using p(1) assms(3) unfolding p(2) [symmetric] by (rule double_sum_exact)
  moreover have "length rs' = length rs"
    using assms(1) by (metis mset_eq_length)
  moreover have "count_rates (summary q t rs') = count_rates (summary q t' rs)"
    using assms(1) by (intro count_rates_summary_perm) simp
  ultimately show ?thesis
    by (simp add: rates_def count_rates_def summary_def p(2))
qed

text \<open>
  C5, amended. Permuting the records of the database and permuting the responses inside
  each record leaves totalResponses, decisionsRate, actionItemsRate, couldBeAsyncRate and
  lengthRatings of the aggregate unchanged (and an absent aggregate absent); it leaves
  averageParticipation unchanged too when the supplied participation values are whole
  numbers with a sum below \<open>2 ^ 53\<close>, for which the double additions are exact.
\<close>

theorem aggregate_counts_order_insensitive:
  assumes "mset db1 = mset (feedbackDatabase this)"
    and "list_all2 responses_permuted db1 (feedbackDatabase this')"
  shows "map_option count_rates (fst (getAggregatedFeedback this' q)) =
         map_option count_rates (fst (getAggregatedFeedback this q))
    \<and> (list_all whole (map supplied (all_responses (filter (selected q) (feedbackDatabase this))))
        \<and> sum_list (map supplied (all_responses (filter (selected q) (feedbackDatabase this)))) < 2 ^ 53 \<longrightarrow>
       map_option rates (fst (getAggregatedFeedback this' q)) =
       map_option rates (fst (getAggregatedFeedback this q)))"
proof -
  let ?xs = "filter (selected q) (feedbackDatabase this)"
  let ?ys = "filter (selected q) (feedbackDatabase this')"
  have "mset (all_responses ?ys) = mset (all_responses (filter (selected q) db1))"
    using assms(2) by (rule all_responses_permuted_responses)
  also have "\<dots> = mset (all_responses ?xs)"
    using assms(1) by (rule all_responses_permuted_records)
  finally have m: "mset (all_responses ?ys) = mset (all_responses ?xs)" .
  show ?thesis
  proof (cases ?xs)
    case Nil
    then have "all_responses ?xs = []" by (simp add: all_responses_def)
    with m have "all_responses ?ys = []" by simp
    then have "?ys = []" by (simp add: selected_none_iff)
    with Nil show ?thesis by (simp add: aggregate_closed_form)
  next
    case xs: (Cons x xs')
    then have "all_responses ?xs \<noteq> []"
      using selected_none_iff [of q "feedbackDatabase this"] by simp
    with m have "all_responses ?ys \<noteq> []" by auto
    then obtain y ys' where ys: "?ys = y # ys'"
      by (cases ?ys) (auto simp: all_responses_def)
    have rx: "fst (getAggregatedFeedback this q) = Some (summary q (meetingTitle x) (all_responses ?xs))"
      and ry: "fst (getAggregatedFeedback this' q) = Some (summary q (meetingTitle y) (all_responses ?ys))"
      using xs ys by (simp_all add: aggregate_closed_form)
    from m have c: "count_rates (summary q (meetingTitle y) (all_responses ?ys)) =
                 count_rates (summary q (meetingTitle x) (all_responses ?xs))"
      by (rule count_rates_summary_perm)
    have r: "rates (summary q (meetingTitle y) (all_responses ?ys)) =
             rates (summary q (meetingTitle x) (all_responses ?xs))"
      if "list_all whole (map supplied (all_responses ?xs))"
        and "sum_list (map supplied (all_responses ?xs)) < 2 ^ 53"
      using m [symmetric] that by (rule rates_summary_whole_perm)
    from c r show ?thesis
      unfolding rx ry by simp
  qed
qed

theorem aggregate_counts_order_insensitive_witness:
  "mset (rev (feedbackDatabase demo)) = mset (feedbackDatabase demo)
   \<and> list_all2 responses_permuted (rev (feedbackDatabase demo)) (feedbackDatabase demo_reordered)
   \<and> feedbackDatabase demo_reordered \<noteq> feedbackDatabase demo
   \<and> list_all whole (map supplied (all_responses (filter (selected ''rec-123'') (feedbackDatabase demo))))
   \<and> sum_list (map supplied (all_responses (filter (selected ''rec-123'') (feedbackDatabase demo)))) < 2 ^ 53
   \<and> map_option count_rates (fst (getAggregatedFeedback demo_reordered ''rec-123'')) =
       map_option count_rates (fst (getAggregatedFeedback demo ''rec-123''))
   \<and> map_option rates (fst (getAggregatedFeedback demo_reordered ''rec-123'')) =
       map_option rates (fst (getAggregatedFeedback demo ''rec-123''))"
proof -
  have p: "mset (rev (feedbackDatabase demo)) = mset (feedbackDatabase demo)"
    by simp
  have r: "list_all2 responses_permuted (rev (feedbackDatabase demo)) (feedbackDatabase demo_reordered)"
    by (simp add: demo_reordered_def demo_def responses_permuted_def)
  have ne: "feedbackDatabase demo_reordered \<noteq> feedbackDatabase demo"
    by (simp add: demo_reordered_def demo_def)
  have w: "list_all whole (map supplied (all_responses (filter (selected ''rec-123'') (feedbackDatabase demo))))"
    "sum_list (map supplied (all_responses (filter (selected ''rec-123'') (feedbackDatabase demo)))) < 2 ^ 53"
    by (simp_all add: demo_selected answer_def supplied_def whole_def)
  from aggregate_counts_order_insensitive [OF p r, of "''rec-123''"] p r ne w show ?thesis
    by blast
qed

text \<open>
  C5 as stated fails. Reversing the three responses 0.1, 0.2, 0.3 (as doubles) of a
  record changes averageParticipation: the additions give 0.6000000000000001 in one order
  and 0.6 in the other.
\<close>

theorem average_depends_on_order:
  "mset (feedbackDatabase tenths) = mset (feedbackDatabase tenths)
   \<and> list_all2 responses_permuted (feedbackDatabase tenths) (feedbackDatabase tenths_reversed)
   \<and> map_option averageParticipation (fst (getAggregatedFeedback tenths_reversed ''rec-123'')) \<noteq>
       map_option averageParticipation (fst (getAggregatedFeedback tenths ''rec-123''))"
proof -
  have "list_all2 responses_permuted (feedbackDatabase tenths) (feedbackDatabase tenths_reversed)"
    by (simp add: tenths_reversed_def tenths_def responses_permuted_def)
  moreover have "map_option averageParticipation (fst (getAggregatedFeedback tenths_reversed ''rec-123'')) \<noteq>
       map_option averageParticipation (fst (getAggregatedFeedback tenths ''rec-123''))"
    by code_simp
  ultimately show ?thesis by simp
qed

section \<open>Scheduling, submission and aggregation\<close>

lemma findIndex_append_fresh:
  "\<forall>x\<in>set xs. \<not> p x \<Longrightarrow> p y \<Longrightarrow> findIndex p (xs @ [y]) = Some (length xs)"
  by (induction xs) simp_all

lemma lacks_series_or_null: "lacks_series v \<Longrightarrow> lacks_series (js_or v Null)"
  by (simp add: js_or_def lacks_series_def)

lemma lacks_series_not_selected: "lacks_series (meetingId fb) \<Longrightarrow> \<not> selected q fb"
  by (auto simp: lacks_series_def selected_def record_series_def split: jsval.splits)

lemma matches_only_series:
  "matches q fb = Inr True \<Longrightarrow>
     \<exists>ps. meetingId fb = JObj ps \<and> map_of ps ''recurringMeetingId'' = Some (JStr q)"
  by (auto simp: matches_selected selected_def record_series_def
      split: jsval.splits option.splits)

text \<open>
  C10. \<^verbatim>\<open>getAggregatedFeedback\<close> matches a record only when the value stored as its
  \<^verbatim>\<open>meetingId\<close> is an object whose \<^verbatim>\<open>recurringMeetingId\<close> property is the queried id.
  \<^verbatim>\<open>scheduleFeedback\<close> stores \<^verbatim>\<open>meeting.id || null\<close> there, so a record scheduled from a
  meeting whose id is a string, is missing, or otherwise has no \<^verbatim>\<open>recurringMeetingId\<close>
  property matches no query, whatever its status and responses: after
  \<^verbatim>\<open>submitFeedback\<close> has completed it, every aggregate is what it was before the record
  was scheduled.
\<close>

theorem scheduled_without_series_never_aggregated:
  assumes sched: "scheduleFeedback this feedbackId meeting templateName = (Some fb, this1)"
    and mid: "get_prop meeting ''id'' = Inr mid" "lacks_series mid"
    and fresh: "feedbackId \<notin> set (map id' (feedbackDatabase this))"
    and submit: "submitFeedback this1 feedbackId rs = (ok, this2)"
  shows "ok
    \<and> feedbackDatabase this2 =
        feedbackDatabase this @ [fb\<lparr>responses := [\<lparr>data = rs\<rparr>], status := ''completed''\<rparr>]
    \<and> (\<forall>q st rsl. matches q (fb\<lparr>responses := rsl, status := st\<rparr>) = Inr False)
    \<and> (\<forall>q. fst (getAggregatedFeedback this2 q) = fst (getAggregatedFeedback this q))
    \<and> (\<forall>q fb'. matches q fb' = Inr True \<longrightarrow>
          (\<exists>ps. meetingId fb' = JObj ps \<and> map_of ps ''recurringMeetingId'' = Some (JStr q)))"
proof -
  from sched mid(1) obtain mtitle where
    fb: "fb = \<lparr>id' = feedbackId, meetingId = js_or mid Null, meetingTitle = mtitle,
               template = templateName, status = ''scheduled'', responses = []\<rparr>"
    and this1: "this1 = this\<lparr>feedbackDatabase := feedbackDatabase this @ [fb]\<rparr>"
    by (auto simp: scheduleFeedback_def scheduleFeedback_try_def Let_def
        split: option.splits sum.splits)
  let ?fb' = "fb\<lparr>responses := [\<lparr>data = rs\<rparr>], status := ''completed''\<rparr>"
  have idx: "findIndex (\<lambda>x. id' x = feedbackId) (feedbackDatabase this @ [fb]) =
      Some (length (feedbackDatabase this))"
    using fresh by (intro findIndex_append_fresh) (auto simp: fb)
  have nores: "responses fb = []"
    by (simp add: fb)
  from submit have ok: "ok"
    and this2: "feedbackDatabase this2 = feedbackDatabase this @ [?fb']"
    by (auto simp: submitFeedback_def this1 idx Let_def nores)
  have "lacks_series (meetingId (fb\<lparr>responses := rsl, status := st\<rparr>))" for rsl st
    using mid(2) by (simp add: fb lacks_series_or_null)
  then have nsel: "\<not> selected q (fb\<lparr>responses := rsl, status := st\<rparr>)" for q rsl st
    by (rule lacks_series_not_selected)
  then have m: "\<forall>q st rsl. matches q (fb\<lparr>responses := rsl, status := st\<rparr>) = Inr False"
    by (simp add: matches_selected)
  have "\<forall>q. fst (getAggregatedFeedback this2 q) = fst (getAggregatedFeedback this q)"
    using nsel by (simp add: aggregate_closed_form this2)
  with ok this2 m matches_only_series show ?thesis
    by blast
qed

lemma toLowerCase_Standard: "toLowerCase ''Standard'' = ''standard''"
  by code_simp

theorem scheduled_without_series_never_aggregated_witness:
  "scheduleFeedback demo ''fb-9'' mock_meeting ''Standard'' = (Some scheduled_record, demo_scheduled)
   \<and> get_prop mock_meeting ''id'' = Inr (JStr ''meeting-1'')
   \<and> get_prop mock_meeting ''recurringMeetingId'' = Inr (JStr ''rec-123'')
   \<and> lacks_series (JStr ''meeting-1'')
   \<and> ''fb-9'' \<notin> set (map id' (feedbackDatabase demo))
   \<and> fst (submitFeedback demo_scheduled ''fb-9'' full_answer)
   \<and> (\<forall>q. fst (getAggregatedFeedback (snd (submitFeedback demo_scheduled ''fb-9'' full_answer)) q) =
            fst (getAggregatedFeedback demo q))"
proof -
  have sched: "scheduleFeedback demo ''fb-9'' mock_meeting ''Standard'' = (Some scheduled_record, demo_scheduled)"
    by (simp add: scheduleFeedback_def scheduleFeedback_try_def toLowerCase_Standard demo_def
        mock_meeting_def js_or_def scheduled_record_def demo_scheduled_def Let_def)
  have mid: "get_prop mock_meeting ''id'' = Inr (JStr ''meeting-1'')"
    by (simp add: mock_meeting_def)
  have series: "get_prop mock_meeting ''recurringMeetingId'' = Inr (JStr ''rec-123'')"
    by (simp add: mock_meeting_def)
  have lacks: "lacks_series (JStr ''meeting-1'')"
    by (simp add: lacks_series_def)
  have fresh: "''fb-9'' \<notin> set (map id' (feedbackDatabase demo))"
    by (simp add: demo_def)
  have submit: "submitFeedback demo_scheduled ''fb-9'' full_answer =
      (fst (submitFeedback demo_scheduled ''fb-9'' full_answer),
       snd (submitFeedback demo_scheduled ''fb-9'' full_answer))"
    by simp
  from scheduled_without_series_never_aggregated [OF sched mid lacks fresh submit]
    sched mid series lacks fresh
  show ?thesis by blast
qed

section \<open>Properties of meeting scoring\<close>

lemma score_valid:
  assumes "valid m"
  shows "score_meeting m w =
    Inr \<lparr>score = clamp (50 + sum_list (map snd (contributions m w))),
         band = classify w (clamp (50 + sum_list (map snd (contributions m w)))),
         contributingFactors = contributions m w,
         recommendation = recommend (classify w (clamp (50 + sum_list (map snd (contributions m w)))))
                            (couldBeAsync m)\<rparr>"
  using assms by (simp add: score_meeting_def valid_def Let_def)

lemma score_invalid: "\<not> valid m \<Longrightarrow> \<exists>field. score_meeting m w = Inl (ValidationError field None)"
  by (auto simp: score_meeting_def valid_def)

lemma evaluate_from_valid:
  "list_all valid ms \<Longrightarrow> \<exists>es. evaluate_from k ms w = Inr es \<and> length es = length ms"
proof (induction ms arbitrary: k)
  case Nil
  show ?case by simp
next
  case (Cons m ms)
  from Cons.prems have "valid m" and "list_all valid ms" by simp_all
  from Cons.IH [OF this(2), of "Suc k"] obtain es
    where "evaluate_from (Suc k) ms w = Inr es" "length es = length ms" by blast
  with \<open>valid m\<close> show ?case by (simp add: score_valid)
qed

lemma evaluate_from_invalid:
  "\<not> list_all valid ms \<Longrightarrow>
     \<exists>field i. evaluate_from k ms w = Inl (ValidationError field (Some (k + i)))
        \<and> i < length ms \<and> \<not> valid (ms ! i) \<and> (\<forall>j<i. valid (ms ! j))"
proof (induction ms arbitrary: k)
  case Nil
  then show ?case by simp
next
  case (Cons m ms)
  show ?case
  proof (cases "valid m")
    case False
    then obtain field where "score_meeting m w = Inl (ValidationError field None)"
      using score_invalid by blast
    then have "evaluate_from k (m # ms) w = Inl (ValidationError field (Some (k + 0)))"
      by simp
    moreover have "0 < length (m # ms)" "\<not> valid ((m # ms) ! 0)" "\<forall>j<0. valid ((m # ms) ! j)"
      using False by simp_all
    ultimately show ?thesis by blast
  next
    case True
    with Cons.prems have "\<not> list_all valid ms" by simp
    from Cons.IH [OF this, of "Suc k"] obtain field i where
      e: "evaluate_from (Suc k) ms w = Inl (ValidationError field (Some (Suc k + i)))"
      and i: "i < length ms" "\<not> valid (ms ! i)" "\<forall>j<i. valid (ms ! j)"
      by blast
    from e True have "evaluate_from k (m # ms) w = Inl (ValidationError field (Some (k + Suc i)))"
      by (simp add: score_valid)
    moreover have "Suc i < length (m # ms)" "\<not> valid ((m # ms) ! Suc i)"
      using i by simp_all
    moreover have "\<forall>j<Suc i. valid ((m # ms) ! j)"
      using i(3) True by (simp add: nth_Cons split: nat.split)
    ultimately show ?thesis by blast
  qed
qed

text \<open>
  C9. \<^verbatim>\<open>evaluateAll\<close> succeeds on the whole batch, with one evaluation per meeting, when
  every meeting is valid; otherwise it fails with a ValidationError that carries the
  position of the first meeting with duration \<le> 0, participantCount < 1 or
  expectedSpeakerCount > participantCount. The result is one or the other: a failure
  carries no summary and no evaluation.
\<close>

theorem evaluateAll_all_or_nothing:
  "(list_all valid ms \<longrightarrow>
      (\<exists>s. evaluateAll ms w = Inr s \<and> length (evaluations s) = length ms))
   \<and> (\<not> list_all valid ms \<longrightarrow>
      (\<exists>field i. evaluateAll ms w = Inl (ValidationError field (Some i))
         \<and> i < length ms
         \<and> (duration (ms ! i) \<le> 0 \<or> participantCount (ms ! i) < 1
              \<or> expectedSpeakerCount (ms ! i) > participantCount (ms ! i))
         \<and> (\<forall>j<i. valid (ms ! j))))"
proof (intro conjI impI)
  assume "list_all valid ms"
  from evaluate_from_valid [OF this, of 0 w]
  show "\<exists>s. evaluateAll ms w = Inr s \<and> length (evaluations s) = length ms"
    by (auto simp: evaluateAll_def)
next
  assume "\<not> list_all valid ms"
  from evaluate_from_invalid [OF this, of 0 w] obtain field i where
    e: "evaluate_from 0 ms w = Inl (ValidationError field (Some i))"
    and i: "i < length ms" "\<not> valid (ms ! i)" "\<forall>j<i. valid (ms ! j)"
    by auto
  from i(2) have "duration (ms ! i) \<le> 0 \<or> participantCount (ms ! i) < 1
              \<or> expectedSpeakerCount (ms ! i) > participantCount (ms ! i)"
    by (auto simp: valid_def)
  moreover from e have "evaluateAll ms w = Inl (ValidationError field (Some i))"
    by (simp add: evaluateAll_def)
  ultimately show "\<exists>field i. evaluateAll ms w = Inl (ValidationError field (Some i))
         \<and> i < length ms
         \<and> (duration (ms ! i) \<le> 0 \<or> participantCount (ms ! i) < 1
              \<or> expectedSpeakerCount (ms ! i) > participantCount (ms ! i))
         \<and> (\<forall>j<i. valid (ms ! j))"
    using i by blast
qed

theorem evaluateAll_all_or_nothing_witness:
  "list_all valid [scenario_A, scenario_B]
   \<and> (\<exists>s. evaluateAll [scenario_A, scenario_B] (default_weights 70 40) = Inr s
          \<and> length (evaluations s) = 2)
   \<and> \<not> list_all valid [scenario_A, invalid_meeting, scenario_B]
   \<and> (\<exists>field. evaluateAll [scenario_A, invalid_meeting, scenario_B] (default_weights 70 40) =
          Inl (ValidationError field (Some 1)))"
proof -
  have v: "valid scenario_A" "valid scenario_B" "\<not> valid invalid_meeting"
    by (simp_all add: valid_def scenario_A_def scenario_B_def invalid_meeting_def)
  then have ok: "list_all valid [scenario_A, scenario_B]"
    and bad: "\<not> list_all valid [scenario_A, invalid_meeting, scenario_B]"
    by simp_all
  from evaluateAll_all_or_nothing [of "[scenario_A, scenario_B]" "default_weights 70 40"] ok
  have good: "\<exists>s. evaluateAll [scenario_A, scenario_B] (default_weights 70 40) = Inr s
          \<and> length (evaluations s) = 2"
    by (auto simp: eval_nat_numeral)
  from evaluateAll_all_or_nothing [of "[scenario_A, invalid_meeting, scenario_B]" "default_weights 70 40"] bad
  obtain field i where
    e: "evaluateAll [scenario_A, invalid_meeting, scenario_B] (default_weights 70 40) =
          Inl (ValidationError field (Some i))"
    and i: "i < 3" "\<not> valid ([scenario_A, invalid_meeting, scenario_B] ! i)"
      "\<forall>j<i. valid ([scenario_A, invalid_meeting, scenario_B] ! j)"
    by (auto simp: valid_def)
  have "i = 1"
  proof -
    from i(1) have "i = 0 \<or> i = 1 \<or> i = 2" by auto
    with i(2,3) v show ?thesis by auto
  qed
  with e good ok bad show ?thesis by blast
qed

end
